theory Spec2Isabelle
  imports Complex_Main "HOL-Library.Sublist" "HOL-Library.Log_Nat"
begin

section \<open>The dashboard's state (src/frontend/src/App.jsx)\<close>

text \<open>
  The component keeps six pieces of React state: \<^verbatim>\<open>url\<close>, \<^verbatim>\<open>result\<close>, \<^verbatim>\<open>loading\<close>,
  \<^verbatim>\<open>backendStatus\<close>, \<^verbatim>\<open>stats\<close> and \<^verbatim>\<open>logs\<close> (\<^verbatim>\<open>metrics\<close> is constant and only rendered).
  Every setter call is modelled by the update it performs on a record of that state.
  The field \<^verbatim>\<open>value\<close> of a chart entry is called \<open>val\<close> and the field \<^verbatim>\<open>id\<close> of a log
  entry \<open>log_id\<close>, since the source's names are taken in Isabelle. Counts are JavaScript
  numbers that only ever start at 400 and 300 and grow by one; they are modelled as
  unbounded integers.
\<close>

record stat =
  name :: string
  val :: int

record log_event =
  log_id :: int
  time :: string
  msg :: string
  level :: string

record scan_result =
  prediction :: string
  confidence :: string
  risk :: string

record app_state =
  url :: string
  result :: "scan_result option"
  loading :: bool
  backendStatus :: string
  stats :: "stat list"
  logs :: "log_event list"

text \<open>The initial values handed to \<^verbatim>\<open>useState\<close> (lines 6-18).\<close>

definition initial_stats :: "stat list" where
  "initial_stats = [\<lparr>name = ''Benign'', val = 400\<rparr>, \<lparr>name = ''Phishing'', val = 300\<rparr>]"

definition initial_state :: app_state where
  "initial_state =
     \<lparr>url = [], result = None, loading = False, backendStatus = ''Checking...'',
      stats = initial_stats, logs = []\<rparr>"

text \<open>
  What the code reads from its environment is passed in: the two clock readings
  \<^verbatim>\<open>Date.now()\<close> and \<^verbatim>\<open>new Date().toLocaleTimeString()\<close>, and each result of
  \<^verbatim>\<open>Math.random()\<close>, a double that is at least 0 and below 1. A double is modelled by
  the rational number it stands for; products and sums of doubles are rounded as the
  machine rounds them (next section).
\<close>

record clock =
  now :: int
  localeTime :: string

section \<open>Double-precision numbers\<close>

text \<open>
  A JavaScript number is an IEEE 754 double: a whole multiple of a power of two, with a
  significand of 53 bits, and of \<open>2^-1074\<close> at least. A product or a sum is the exact
  result rounded to the nearest double, to the one with an even significand on a tie.
  The spacing of the doubles around \<open>x\<close> is \<open>ulp x\<close>: with \<open>Y\<close> the magnitude of \<open>x\<close> in
  units of \<open>2^-1074\<close>, it is one unit while \<open>Y\<close> has at most 53 bits and doubles with each
  further bit. Results of magnitude \<open>2^1024\<close> and more, which the machine turns into
  infinities, do not arise from the draws and constants of this program.
\<close>

definition subnormal_bits :: nat where
  "subnormal_bits = 1074"

definition quantum_exp :: "rat \<Rightarrow> nat" where
  "quantum_exp x = nat (bitlen \<lfloor>\<bar>x\<bar> * 2 ^ subnormal_bits\<rfloor> - 53)"

definition ulp :: "rat \<Rightarrow> rat" where
  "ulp x = 2 ^ quantum_exp x / 2 ^ subnormal_bits"

definition round_half_even :: "rat \<Rightarrow> int" where
  "round_half_even y =
     (let f = \<lfloor>y\<rfloor>; d = y - of_int f
      in if d < 1 / 2 then f else if 1 / 2 < d then f + 1 else if even f then f else f + 1)"

definition round_double :: "rat \<Rightarrow> rat" where
  "round_double x = of_int (round_half_even (x / ulp x)) * ulp x"

text \<open>\<^verbatim>\<open>x * y\<close> and \<^verbatim>\<open>x + y\<close> on doubles; a decimal literal is the double nearest to it.\<close>

definition dmul :: "rat \<Rightarrow> rat \<Rightarrow> rat" where
  "dmul x y = round_double (x * y)"

definition dadd :: "rat \<Rightarrow> rat \<Rightarrow> rat" where
  "dadd x y = round_double (x + y)"

definition is_double :: "rat \<Rightarrow> bool" where
  "is_double x = (round_double x = x \<and> \<bar>x\<bar> < 2 ^ 1024)"

section \<open>Library functions of JavaScript used by the code\<close>

text \<open>Decimal digits of a natural number, as \<^verbatim>\<open>String(n)\<close> and template literals print it.\<close>

definition digit_char :: "nat \<Rightarrow> char" where
  "digit_char d = ''0123456789'' ! d"

fun decimal :: "nat \<Rightarrow> string" where
  "decimal n = (if n < 10 then [digit_char n] else decimal (n div 10) @ [digit_char (n mod 10)])"

declare decimal.simps [simp del]

text \<open>
  \<^verbatim>\<open>x.toFixed(1)\<close>: the sign, then the integer \<open>n\<close> for which \<open>n / 10\<close> is closest to
  the exact value of \<open>|x|\<close> (the larger one on a tie), printed with a point before its
  last digit; \<^verbatim>\<open>x.toFixed(2)\<close> likewise with hundredths and two digits after the point.
  This is what JavaScript prints for a double below \<open>10^21\<close> in magnitude.
\<close>

definition tenths :: "rat \<Rightarrow> nat" where
  "tenths x = nat \<lfloor>\<bar>x\<bar> * 10 + 1 / 2\<rfloor>"

definition toFixed1 :: "rat \<Rightarrow> string" where
  "toFixed1 x =
     (if x < 0 then ''-'' else '''') @
     decimal (tenths x div 10) @ ''.'' @ decimal (tenths x mod 10)"

definition hundredths :: "rat \<Rightarrow> nat" where
  "hundredths x = nat \<lfloor>\<bar>x\<bar> * 100 + 1 / 2\<rfloor>"

definition toFixed2 :: "rat \<Rightarrow> string" where
  "toFixed2 x =
     (if x < 0 then ''-'' else '''') @
     decimal (hundredths x div 100) @ ''.'' @
     [digit_char (hundredths x div 10 mod 10), digit_char (hundredths x mod 10)]"

text \<open>
  \<^verbatim>\<open>s.includes(p)\<close>: \<open>p\<close> occurs in \<open>s\<close> as a contiguous run of characters. A string is
  the list of its characters, and \<open>length\<close> counts them as \<^verbatim>\<open>s.length\<close> counts the code
  units of the string.
\<close>

fun str_includes :: "string \<Rightarrow> string \<Rightarrow> bool" where
  "str_includes [] p = (p = [])"
| "str_includes (c # cs) p = (prefix p (c # cs) \<or> str_includes cs p)"

section \<open>The background interval (App.jsx, lines 24-56)\<close>

text \<open>
  \<^verbatim>\<open>setStats(prev => { const isPhishing = Math.random() > 0.7; return prev.map((item, index) => ...) })\<close>:
  the entry at index 1 grows when the draw exceeds 0.7, the entry at index 0 otherwise.
  The draw is made once per call of the updater. The literal \<^verbatim>\<open>0.7\<close> is the double just
  below 7/10, and no double lies between the two: for a draw, which is a double, the
  comparison with 7/10 is the comparison the code makes (\<open>literal_0_7_agrees\<close> below).
\<close>

definition tick_item :: "bool \<Rightarrow> stat \<times> nat \<Rightarrow> stat" where
  "tick_item isPhishing p =
     (case p of (item, index) \<Rightarrow>
        if isPhishing \<and> index = 1 then item\<lparr>val := val item + 1\<rparr>
        else if \<not> isPhishing \<and> index = 0 then item\<lparr>val := val item + 1\<rparr>
        else item)"

definition isPhishing :: "rat \<Rightarrow> bool" where
  "isPhishing rnd = (rnd > 7 / 10)"

definition tick_stats :: "rat \<Rightarrow> stat list \<Rightarrow> stat list" where
  "tick_stats rnd prev = map (tick_item (isPhishing rnd)) (zip prev [0 ..< length prev])"

text \<open>
  The log entry of a tick: \<^verbatim>\<open>Auto-scanning batch #${Math.floor(Math.random() * 9000) + 1000}...\<close>
  with level \<^verbatim>\<open>INFO\<close>.
\<close>

definition batch_number :: "rat \<Rightarrow> nat" where
  "batch_number rnd = nat \<lfloor>dmul rnd 9000\<rfloor> + 1000"

definition tick_log :: "rat \<Rightarrow> clock \<Rightarrow> log_event" where
  "tick_log rnd clk =
     \<lparr>log_id = now clk, time = localeTime clk,
      msg = ''Auto-scanning batch #'' @ decimal (batch_number rnd) @ ''...'',
      level = ''INFO''\<rparr>"

text \<open>\<^verbatim>\<open>[newLog, ...safePrev].slice(0, 7)\<close> on a buffer that is an array.\<close>

definition push_capped :: "log_event \<Rightarrow> log_event list \<Rightarrow> log_event list" where
  "push_capped newLog prev = take 7 (newLog # prev)"

text \<open>One firing of the interval: the first draw decides the label, the second the batch number.\<close>

definition tick :: "rat \<Rightarrow> rat \<Rightarrow> clock \<Rightarrow> app_state \<Rightarrow> app_state" where
  "tick rnd1 rnd2 clk s =
     s\<lparr>stats := tick_stats rnd1 (stats s),
       logs := push_capped (tick_log rnd2 clk) (logs s)\<rparr>"

section \<open>analyzeUrl (App.jsx, lines 59-128)\<close>

text \<open>
  The body of a successful response after \<^verbatim>\<open>response.json()\<close>, in the shape the
  service answers with: \<^verbatim>\<open>prediction\<close> and \<^verbatim>\<open>risk_level\<close> are strings and \<^verbatim>\<open>confidence\<close> is
  a double between 0 and 1. A call fails when \<^verbatim>\<open>fetch\<close> rejects, when \<^verbatim>\<open>response.ok\<close> is
  false, or when the body cannot be read as an object; all of those reach the \<^verbatim>\<open>catch\<close>
  branch before any setter has run. A body of another shape (a field missing or of
  another type, a confidence of \<open>10^19\<close> and more) runs the same setters; what it stores
  in \<^verbatim>\<open>result\<close> for display is not covered by the record below. For the statistics
  such a prediction is like a string that is neither \<^verbatim>\<open>'phishing'\<close> nor \<^verbatim>\<open>'benign'\<close>.
\<close>

record response_data =
  data_prediction :: string
  data_confidence :: rat
  data_risk_level :: string

datatype remote = Succeeded response_data | Failed

text \<open>
  The updater of \<^verbatim>\<open>setStats\<close> on the success path (lines 92-102) selects entries by name.
\<close>

definition merge_item :: "string \<Rightarrow> stat \<Rightarrow> stat" where
  "merge_item pred item =
     (if pred = ''phishing'' \<and> name item = ''Phishing'' then item\<lparr>val := val item + 1\<rparr>
      else if pred = ''benign'' \<and> name item = ''Benign'' then item\<lparr>val := val item + 1\<rparr>
      else item)"

definition merge_stats :: "string \<Rightarrow> stat list \<Rightarrow> stat list" where
  "merge_stats pred prev = map (merge_item pred) prev"

text \<open>
  The function is asynchronous. It is modelled by its synchronous stretches, each run
  when the awaited promise settles:
  \<^item> \<open>analyzeUrl_begin\<close>: the guard, \<^verbatim>\<open>setLoading(true)\<close>, \<^verbatim>\<open>setResult(null)\<close>, up to the
    \<^verbatim>\<open>await fetch\<close>; it returns the url captured by the closure when a request is sent;
  \<^item> \<open>analyzeUrl_success\<close>: lines 76-103 and the \<^verbatim>\<open>finally\<close> block;
  \<^item> \<open>analyzeUrl_catch\<close>: lines 106-107, up to the awaited 800 ms timer;
  \<^item> \<open>analyzeUrl_fallback\<close>: lines 111-124 and the \<^verbatim>\<open>finally\<close> block.
\<close>

definition analyzeUrl_begin :: "app_state \<Rightarrow> app_state \<times> string option" where
  "analyzeUrl_begin s =
     (if url s = [] then (s, None)
      else (s\<lparr>loading := True, result := None\<rparr>, Some (url s)))"

definition success_log :: "string \<Rightarrow> clock \<Rightarrow> log_event" where
  "success_log u clk =
     \<lparr>log_id = now clk, time = localeTime clk,
      msg = ''User Scan Success: '' @ u, level = ''SUCCESS''\<rparr>"

definition analyzeUrl_success :: "string \<Rightarrow> response_data \<Rightarrow> clock \<Rightarrow> app_state \<Rightarrow> app_state" where
  "analyzeUrl_success u d clk s =
     s\<lparr>result := Some \<lparr>prediction = data_prediction d,
                        confidence = toFixed1 (dmul (data_confidence d) 100),
                        risk = data_risk_level d\<rparr>,
       logs := success_log u clk # logs s,
       stats := merge_stats (data_prediction d) (stats s),
       backendStatus := ''Online'',
       loading := False\<rparr>"

definition analyzeUrl_catch :: "app_state \<Rightarrow> app_state" where
  "analyzeUrl_catch s = s\<lparr>backendStatus := ''Offline (Simulated Mode)''\<rparr>"

definition isPhish :: "string \<Rightarrow> bool" where
  "isPhish u = (str_includes u ''bank'' \<or> length u > 50 \<or> str_includes u ''secure'')"

definition mockRes :: "string \<Rightarrow> rat \<Rightarrow> scan_result" where
  "mockRes u rnd =
     \<lparr>prediction = (if isPhish u then ''phishing'' else ''benign''),
      confidence = toFixed1 (dadd 75 (dmul rnd 20)),
      risk = (if isPhish u then ''CRITICAL'' else ''LOW'')\<rparr>"

definition simulated_log :: "string \<Rightarrow> clock \<Rightarrow> log_event" where
  "simulated_log u clk =
     \<lparr>log_id = now clk, time = localeTime clk,
      msg = ''[Simulated] Scan: '' @ u, level = ''WARN''\<rparr>"

definition analyzeUrl_fallback :: "string \<Rightarrow> rat \<Rightarrow> clock \<Rightarrow> app_state \<Rightarrow> app_state" where
  "analyzeUrl_fallback u rnd clk s =
     s\<lparr>result := Some (mockRes u rnd),
       logs := simulated_log u clk # logs s,
       loading := False\<rparr>"

text \<open>
  One whole call with nothing else running in between: the outcome of the request,
  the draw and the clock readings are given.
\<close>

definition analyzeUrl :: "remote \<Rightarrow> rat \<Rightarrow> clock \<Rightarrow> app_state \<Rightarrow> app_state" where
  "analyzeUrl r rnd clk s =
     (case analyzeUrl_begin s of
        (s1, None) \<Rightarrow> s1
      | (s1, Some u) \<Rightarrow>
          (case r of
             Succeeded d \<Rightarrow> analyzeUrl_success u d clk s1
           | Failed \<Rightarrow> analyzeUrl_fallback u rnd clk (analyzeUrl_catch s1)))"

section \<open>The session: handlers interleaved\<close>

text \<open>
  JavaScript runs one handler at a time. A session is a sequence of events, each running
  one synchronous stretch of code to completion: an edit of the input field, a click on
  the button, the Enter key in the input field, a firing of the interval, and the
  settling of a promise some call of \<^verbatim>\<open>analyzeUrl\<close> awaits. The calls in flight are kept
  in a list; each remembers the url its closure captured and which promise it awaits.
\<close>

datatype task = AwaitFetch string | AwaitDelay string

record system =
  ui :: app_state
  inflight :: "task list"

definition initial_system :: system where
  "initial_system = \<lparr>ui = initial_state, inflight = []\<rparr>"

definition task_at :: "system \<Rightarrow> nat \<Rightarrow> task option" where
  "task_at sys i = (if i < length (inflight sys) then Some (inflight sys ! i) else None)"

definition remove_task :: "nat \<Rightarrow> task list \<Rightarrow> task list" where
  "remove_task i ts = take i ts @ drop (Suc i) ts"

text \<open>A call \<^verbatim>\<open>analyzeUrl()\<close>: past the guard, one request is sent and awaited.\<close>

definition submit :: "system \<Rightarrow> system" where
  "submit sys =
     (case analyzeUrl_begin (ui sys) of
        (s1, None) \<Rightarrow> sys\<lparr>ui := s1\<rparr>
      | (s1, Some u) \<Rightarrow> sys\<lparr>ui := s1, inflight := inflight sys @ [AwaitFetch u]\<rparr>)"

text \<open>
  The button carries \<^verbatim>\<open>disabled={loading || !url}\<close> (line 166) and a disabled button
  fires no click. The input field calls \<^verbatim>\<open>analyzeUrl()\<close> on Enter (line 160).
\<close>

definition button_disabled :: "app_state \<Rightarrow> bool" where
  "button_disabled s = (loading s \<or> url s = [])"

text \<open>
  \<open>Response i d clk\<close> and \<open>Failure i\<close> settle the request of the call at position \<open>i\<close>,
  \<open>Timeout i rnd clk\<close> the 800 ms timer of a call whose request has failed. An event
  that names no call awaiting that promise cannot occur; the model leaves the state as
  it is. A call whose request is answered, or whose timer elapses, has run to its end
  and leaves the list.
\<close>

datatype event =
    Change string
  | Click
  | KeyEnter
  | Interval rat rat clock
  | Response nat response_data clock
  | Failure nat
  | Timeout nat rat clock

fun step :: "event \<Rightarrow> system \<Rightarrow> system" where
  "step (Change v) sys = sys\<lparr>ui := (ui sys)\<lparr>url := v\<rparr>\<rparr>"
| "step Click sys = (if button_disabled (ui sys) then sys else submit sys)"
| "step KeyEnter sys = submit sys"
| "step (Interval rnd1 rnd2 clk) sys = sys\<lparr>ui := tick rnd1 rnd2 clk (ui sys)\<rparr>"
| "step (Response i d clk) sys =
     (case task_at sys i of
        Some (AwaitFetch u) \<Rightarrow>
          sys\<lparr>ui := analyzeUrl_success u d clk (ui sys),
              inflight := remove_task i (inflight sys)\<rparr>
      | _ \<Rightarrow> sys)"
| "step (Failure i) sys =
     (case task_at sys i of
        Some (AwaitFetch u) \<Rightarrow>
          sys\<lparr>ui := analyzeUrl_catch (ui sys),
              inflight := (inflight sys)[i := AwaitDelay u]\<rparr>
      | _ \<Rightarrow> sys)"
| "step (Timeout i rnd clk) sys =
     (case task_at sys i of
        Some (AwaitDelay u) \<Rightarrow>
          sys\<lparr>ui := analyzeUrl_fallback u rnd clk (ui sys),
              inflight := remove_task i (inflight sys)\<rparr>
      | _ \<Rightarrow> sys)"

fun run :: "event list \<Rightarrow> system \<Rightarrow> system" where
  "run [] sys = sys"
| "run (e # es) sys = run es (step e sys)"

text \<open>
  Counting along a session. An outcome is a classification with one of the two labels.
  A firing of the interval merges the outcome its draw decides; a response to a call in
  flight merges the outcome its prediction names, and none when the prediction is
  neither \<^verbatim>\<open>'phishing'\<close> nor \<^verbatim>\<open>'benign'\<close>; no other event calls \<^verbatim>\<open>setStats\<close>.
\<close>

datatype label = Benign | Phishing

fun answers :: "event \<Rightarrow> system \<Rightarrow> bool" where
  "answers (Response i d clk) sys =
     (case task_at sys i of Some (AwaitFetch u) \<Rightarrow> True | _ \<Rightarrow> False)"
| "answers _ sys = False"

fun outcome :: "event \<Rightarrow> system \<Rightarrow> label option" where
  "outcome (Interval rnd1 rnd2 clk) sys = Some (if isPhishing rnd1 then Phishing else Benign)"
| "outcome (Response i d clk) sys =
     (if answers (Response i d clk) sys
      then (if data_prediction d = ''phishing'' then Some Phishing
            else if data_prediction d = ''benign'' then Some Benign
            else None)
      else None)"
| "outcome _ sys = None"

fun merged :: "label \<Rightarrow> event list \<Rightarrow> system \<Rightarrow> nat" where
  "merged l [] sys = 0"
| "merged l (e # es) sys =
     (if outcome e sys = Some l then 1 else 0) + merged l es (step e sys)"

definition merges :: "event \<Rightarrow> system \<Rightarrow> bool" where
  "merges e sys = (outcome e sys \<noteq> None)"

fun outcomes_merged :: "event list \<Rightarrow> system \<Rightarrow> nat" where
  "outcomes_merged [] sys = 0"
| "outcomes_merged (e # es) sys =
     (if merges e sys then 1 else 0) + outcomes_merged es (step e sys)"

fun fails :: "event \<Rightarrow> system \<Rightarrow> bool" where
  "fails (Failure i) sys =
     (case task_at sys i of Some (AwaitFetch u) \<Rightarrow> True | _ \<Rightarrow> False)"
| "fails _ sys = False"

fun failed_calls :: "event list \<Rightarrow> system \<Rightarrow> nat" where
  "failed_calls [] sys = 0"
| "failed_calls (e # es) sys =
     (if fails e sys then 1 else 0) + failed_calls es (step e sys)"


definition total :: "stat list \<Rightarrow> int" where
  "total st = sum_list (map val st)"

text \<open>The shape of the statistics: two entries, Benign before Phishing.\<close>

definition shape :: "stat list \<Rightarrow> bool" where
  "shape st = (map name st = [''Benign'', ''Phishing''])"

text \<open>An entry and its later version: the same name, a count that is not lower.\<close>

definition grows :: "stat \<Rightarrow> stat \<Rightarrow> bool" where
  "grows a b = (name a = name b \<and> val a \<le> val b)"

subsection \<open>Sessions used as examples\<close>

definition noon :: clock where
  "noon = \<lparr>now = 1700000000000, localeTime = ''12:00:00''\<rparr>"

definition benign_response :: response_data where
  "benign_response =
     \<lparr>data_prediction = ''benign'', data_confidence = 7 / 8, data_risk_level = ''LOW''\<rparr>"

definition phishing_response :: response_data where
  "phishing_response =
     \<lparr>data_prediction = ''phishing'', data_confidence = 15 / 16, data_risk_level = ''CRITICAL''\<rparr>"

text \<open>A scan of a url while the classifier cannot be reached.\<close>

definition offline_scan :: "event list" where
  "offline_scan =
     [Change ''http://verify-bank-login.com'', Click, Failure 0, Timeout 0 (1 / 2) noon]"

text \<open>Enter pressed twice before the first request is answered, then both answers.\<close>

definition double_enter :: "event list" where
  "double_enter = [Change ''http://example.com'', KeyEnter, KeyEnter]"

definition double_enter_answered :: "event list" where
  "double_enter_answered =
     double_enter @ [Response 0 benign_response noon, Response 0 benign_response noon]"

text \<open>Seven firings of the interval, then a scan that the classifier answers.\<close>

definition seven_ticks :: "event list" where
  "seven_ticks = replicate 7 (Interval (1 / 2) (1 / 2) noon)"

definition full_log_scan :: "event list" where
  "full_log_scan =
     seven_ticks @ [Change ''http://verify-bank-login.com'', Click,
                    Response 0 phishing_response noon]"

definition full_log_offline_scan :: "event list" where
  "full_log_offline_scan = seven_ticks @ offline_scan"

text \<open>A scan answered with a prediction that is neither of the two strings compared with.\<close>

definition mislabelled_response :: response_data where
  "mislabelled_response =
     \<lparr>data_prediction = ''Phishing'', data_confidence = 15 / 16, data_risk_level = ''CRITICAL''\<rparr>"

definition mislabelled_scan :: "event list" where
  "mislabelled_scan =
     [Change ''http://verify-bank-login.com'', Click, Response 0 mislabelled_response noon]"

text \<open>A firing of the interval, a scan answered with phishing, and a scan left unanswered.\<close>

definition mixed_session :: "event list" where
  "mixed_session =
     [Interval (3 / 4) (1 / 2) noon, Change ''http://verify-bank-login.com'', Click,
      Response 0 phishing_response noon, Click]"

section \<open>The earlier variant of the component (src/unnamed/part_001)\<close>

text \<open>
  The file keeps the state \<^verbatim>\<open>url\<close>, \<^verbatim>\<open>result\<close>, \<^verbatim>\<open>loading\<close>, \<^verbatim>\<open>logs\<close> and \<^verbatim>\<open>stats\<close> (and the
  constant \<^verbatim>\<open>metrics\<close>), with the same initial values. It makes no request: its
  \<^verbatim>\<open>analyzeUrl\<close> waits a second and evaluates the url locally.
\<close>

record legacy_state =
  legacy_url :: string
  legacy_result :: "scan_result option"
  legacy_loading :: bool
  legacy_logs :: "log_event list"
  legacy_stats :: "stat list"

definition legacy_initial_state :: legacy_state where
  "legacy_initial_state =
     \<lparr>legacy_url = [], legacy_result = None, legacy_loading = False, legacy_logs = [],
      legacy_stats = initial_stats\<rparr>"

text \<open>
  The interval (lines 17-29), every 3 seconds: one log entry with the message
  \<^verbatim>\<open>Analyzed URL batch #${Math.floor(Math.random() * 1000)}\<close> and the level
  \<^verbatim>\<open>Math.random() > 0.9 ? 'WARN' : 'INFO'\<close>, pushed by
  \<^verbatim>\<open>setLogs(prev => [newLog, ...prev].slice(0, 5))\<close>. The first draw numbers the batch,
  the second decides the level; \<^verbatim>\<open>0.9\<close> is the double nearest to 9/10.
\<close>

definition legacy_tick_log :: "rat \<Rightarrow> rat \<Rightarrow> clock \<Rightarrow> log_event" where
  "legacy_tick_log rnd1 rnd2 clk =
     \<lparr>log_id = now clk, time = localeTime clk,
      msg = ''Analyzed URL batch #'' @ decimal (nat \<lfloor>dmul rnd1 1000\<rfloor>),
      level = (if rnd2 > round_double (9 / 10) then ''WARN'' else ''INFO'')\<rparr>"

definition legacy_tick :: "rat \<Rightarrow> rat \<Rightarrow> clock \<Rightarrow> legacy_state \<Rightarrow> legacy_state" where
  "legacy_tick rnd1 rnd2 clk s =
     s\<lparr>legacy_logs := take 5 (legacy_tick_log rnd1 rnd2 clk # legacy_logs s)\<rparr>"

text \<open>
  The local evaluation (lines 38-43):
  \<^verbatim>\<open>const isPhish = url.includes("bank") || url.length > 30;\<close> with the result
  \<^verbatim>\<open>{ prediction: isPhish ? "Phishing" : "Benign", confidence: (0.7 + Math.random() * 0.29).toFixed(2), risk: isPhish ? "CRITICAL" : "LOW" }\<close>.
\<close>

definition legacy_isPhish :: "string \<Rightarrow> bool" where
  "legacy_isPhish u = (str_includes u ''bank'' \<or> length u > 30)"

definition legacy_mockRes :: "string \<Rightarrow> rat \<Rightarrow> scan_result" where
  "legacy_mockRes u rnd =
     \<lparr>prediction = (if legacy_isPhish u then ''Phishing'' else ''Benign''),
      confidence = toFixed2 (dadd (round_double (7 / 10)) (dmul rnd (round_double (29 / 100)))),
      risk = (if legacy_isPhish u then ''CRITICAL'' else ''LOW'')\<rparr>"

text \<open>A url of 32 characters, without \<^verbatim>\<open>bank\<close> and without \<^verbatim>\<open>secure\<close>.\<close>

definition plain_url :: string where
  "plain_url = ''http://example.com/account/login''"

section \<open>Entries as objects: who shares what\<close>

text \<open>
  The records above hold the statistics by value. In the program an array holds
  references to objects, and an updater either builds new objects or writes into the
  ones it was given. To tell the two apart the objects are kept in a store: an address
  is an index into the list of objects, and a new object goes to the end. Arrays are
  never written after they are built (\<^verbatim>\<open>map\<close> and \<^verbatim>\<open>[...prev]\<close> build new ones), so an
  array is the list of the addresses it holds, and a snapshot is read through the store.
\<close>

type_synonym ref = nat
type_synonym heap = "stat list"

definition alloc :: "heap \<Rightarrow> stat \<Rightarrow> heap \<times> ref" where
  "alloc h x = (h @ [x], length h)"

definition view :: "heap \<Rightarrow> ref list \<Rightarrow> stat list" where
  "view h refs = map (\<lambda>a. h ! a) refs"

definition refs_ok :: "heap \<Rightarrow> ref list \<Rightarrow> bool" where
  "refs_ok h refs = list_all (\<lambda>a. a < length h) refs"

text \<open>
  \<^verbatim>\<open>prev.map((item, index) => ...)\<close> with a callback that returns either the item it was
  given (\<open>None\<close>) or a new object \<^verbatim>\<open>{ ...item, value: item.value + 1 }\<close> (\<open>Some\<close>).
\<close>

fun map_refs ::
  "(stat \<Rightarrow> nat \<Rightarrow> stat option) \<Rightarrow> nat \<Rightarrow> heap \<Rightarrow> ref list \<Rightarrow> heap \<times> ref list" where
  "map_refs f index h [] = (h, [])"
| "map_refs f index h (a # as) =
     (case f (h ! a) index of
        None \<Rightarrow> (case map_refs f (Suc index) h as of (h', bs) \<Rightarrow> (h', a # bs))
      | Some x \<Rightarrow>
          (case alloc h x of (h1, b) \<Rightarrow>
             (case map_refs f (Suc index) h1 as of (h', bs) \<Rightarrow> (h', b # bs))))"

definition apply_callback :: "(stat \<Rightarrow> nat \<Rightarrow> stat option) \<Rightarrow> stat \<times> nat \<Rightarrow> stat" where
  "apply_callback f p =
     (case p of (item, index) \<Rightarrow> (case f item index of None \<Rightarrow> item | Some x \<Rightarrow> x))"

text \<open>The two updaters of App.jsx (lines 27-39 and 92-102).\<close>

definition interval_callback :: "bool \<Rightarrow> stat \<Rightarrow> nat \<Rightarrow> stat option" where
  "interval_callback isPh item index =
     (if isPh \<and> index = 1 then Some (item\<lparr>val := val item + 1\<rparr>)
      else if \<not> isPh \<and> index = 0 then Some (item\<lparr>val := val item + 1\<rparr>)
      else None)"

definition success_callback :: "string \<Rightarrow> stat \<Rightarrow> nat \<Rightarrow> stat option" where
  "success_callback pred item index =
     (if pred = ''phishing'' \<and> name item = ''Phishing'' then Some (item\<lparr>val := val item + 1\<rparr>)
      else if pred = ''benign'' \<and> name item = ''Benign'' then Some (item\<lparr>val := val item + 1\<rparr>)
      else None)"

definition interval_setStats :: "rat \<Rightarrow> heap \<Rightarrow> ref list \<Rightarrow> heap \<times> ref list" where
  "interval_setStats rnd h prev = map_refs (interval_callback (isPhishing rnd)) 0 h prev"

definition success_setStats :: "string \<Rightarrow> heap \<Rightarrow> ref list \<Rightarrow> heap \<times> ref list" where
  "success_setStats pred h prev = map_refs (success_callback pred) 0 h prev"

text \<open>
  The updater of the earlier variant of the component (src/unnamed/part_001, lines
  54-59), with \<^verbatim>\<open>isPhish\<close> as above:
  \<^verbatim>\<open>setStats(prev => { const newStats = [...prev]; if(isPhish) newStats[1].value++; else newStats[0].value++; return newStats; })\<close>.
  The new array holds the addresses of the old one, and \<^verbatim>\<open>value++\<close> writes into the
  object at that address; on an array too short for the index, reading \<^verbatim>\<open>value\<close> of
  \<^verbatim>\<open>undefined\<close> raises a TypeError.
\<close>

datatype js_error = TypeError

definition increment_at :: "heap \<Rightarrow> ref list \<Rightarrow> nat \<Rightarrow> js_error + heap" where
  "increment_at h arr i =
     (if i < length arr
      then Inr (h[arr ! i := (h ! (arr ! i))\<lparr>val := val (h ! (arr ! i)) + 1\<rparr>])
      else Inl TypeError)"

definition legacy_setStats :: "string \<Rightarrow> heap \<Rightarrow> ref list \<Rightarrow> js_error + heap \<times> ref list" where
  "legacy_setStats u h prev =
     (let newStats = prev
      in case (if legacy_isPhish u then increment_at h newStats 1
               else increment_at h newStats 0) of
           Inl e \<Rightarrow> Inl e
         | Inr h' \<Rightarrow> Inr (h', newStats))"

section \<open>The log buffer as a JavaScript value\<close>

text \<open>
  The state \<^verbatim>\<open>logs\<close> starts as \<^verbatim>\<open>[]\<close> and every updater returns an array, so the session
  above keeps it as a list. The updaters themselves take whatever React hands them. To
  say what they do with a value that is no array, the values that are absent or no
  sequence are added: \<^verbatim>\<open>undefined\<close>, \<^verbatim>\<open>null\<close>, a boolean, a number, and an object that is
  not iterable. Spreading any of these into an array literal raises a TypeError.
\<close>

datatype 'a js_value =
  JSUndefined | JSNull | JSBoolean bool | JSNumber int | JSObject | JSArray "'a list"

definition isArray :: "'a js_value \<Rightarrow> bool" where
  "isArray v = (case v of JSArray xs \<Rightarrow> True | _ \<Rightarrow> False)"

definition spread :: "'a js_value \<Rightarrow> js_error + 'a list" where
  "spread v = (case v of JSArray xs \<Rightarrow> Inr xs | _ \<Rightarrow> Inl TypeError)"

text \<open>
  Lines 48-52: \<^verbatim>\<open>const safePrev = Array.isArray(prev) ? prev : []; return [newLog, ...safePrev].slice(0, 7);\<close>
\<close>

definition interval_setLogs :: "log_event \<Rightarrow> log_event js_value \<Rightarrow> js_error + log_event list" where
  "interval_setLogs newLog prev =
     (let safePrev = (if isArray prev then prev else JSArray [])
      in case spread safePrev of
           Inl e \<Rightarrow> Inl e
         | Inr xs \<Rightarrow> Inr (take 7 (newLog # xs)))"

text \<open>Lines 84-89 and 119-124: \<^verbatim>\<open>setLogs(prev => [{ ... }, ...prev])\<close>.\<close>

definition scan_setLogs :: "log_event \<Rightarrow> log_event js_value \<Rightarrow> js_error + log_event list" where
  "scan_setLogs ev prev =
     (case spread prev of
        Inl e \<Rightarrow> Inl e
      | Inr xs \<Rightarrow> Inr (ev # xs))"

section \<open>Facts about the library functions\<close>

lemma str_includes_sublist: "str_includes s p = sublist p s"
  by (induction s) (simp_all add: sublist_Cons_right)

lemma str_includes_iff: "str_includes s p \<longleftrightarrow> (\<exists>a b. s = a @ p @ b)"
  by (simp add: str_includes_sublist sublist_def)

lemma decimal_one_digit: "n < 10 \<Longrightarrow> decimal n = [digit_char n]"
  by (simp add: decimal.simps)

lemma decimal_more_digits:
  "10 \<le> n \<Longrightarrow> decimal n = decimal (n div 10) @ [digit_char (n mod 10)]"
  by (subst decimal.simps) simp

lemma decimal_two_digits:
  assumes "10 \<le> n" "n < 100"
  shows "decimal n = [digit_char (n div 10), digit_char (n mod 10)]"
proof -
  have "n div 10 < 10" using assms by simp
  then show ?thesis using assms
    by (subst decimal.simps) (simp add: decimal_one_digit)
qed

lemma tenths_close:
  assumes "0 \<le> x"
  shows "\<bar>of_nat (tenths x) / 10 - x\<bar> \<le> 1 / 20"
proof -
  define y where "y = x * 10 + 1 / 2"
  define k where "k = \<lfloor>y\<rfloor>"
  have "0 \<le> y" using assms by (simp add: y_def)
  then have nonneg: "0 \<le> k" by (simp add: k_def)
  have "tenths x = nat k"
    using assms by (simp add: tenths_def k_def y_def)
  then have t: "(of_nat (tenths x) :: rat) = of_int k"
    using nonneg by simp
  have "of_int k \<le> y" and "y < of_int k + 1"
    unfolding k_def by linarith+
  then have "of_int k / 10 - x \<le> 1 / 20" and "- (1 / 20) \<le> of_int k / 10 - x"
    unfolding y_def by linarith+
  then show ?thesis unfolding t by linarith
qed

lemma div_10_div_10: "(n::nat) div 10 div 10 = n div 100"
  by (simp add: div_mult2_eq [symmetric])


lemma tenths_bounds:
  assumes "75 \<le> x" and "x \<le> 95"
  shows "750 \<le> tenths x" and "tenths x \<le> 950"
proof -
  define z where "z = (x - 75) * 10 + 1 / 2"
  have eq: "\<bar>x\<bar> * 10 + 1 / 2 = of_int 750 + z"
    using assms by (simp add: abs_if z_def algebra_simps)
  have "0 \<le> z" and "z < 201"
    using assms by (simp_all add: z_def)
  then have fl: "0 \<le> \<lfloor>z\<rfloor>" "\<lfloor>z\<rfloor> \<le> 200"
    by (simp_all add: le_floor_iff floor_le_iff)
  have tn: "tenths x = nat (750 + \<lfloor>z\<rfloor>)"
    unfolding tenths_def eq by (simp only: int_add_floor [symmetric])
  show "750 \<le> tenths x" and "tenths x \<le> 950"
    unfolding tn using fl by linarith+
qed

lemma hundredths_bounds:
  assumes "695 / 1000 \<le> x" and "x \<le> 99 / 100"
  shows "70 \<le> hundredths x" and "hundredths x \<le> 99"
proof -
  define z where "z = (x - 695 / 1000) * 100"
  have eq: "\<bar>x\<bar> * 100 + 1 / 2 = of_int 70 + z"
    using assms by (simp add: abs_if z_def algebra_simps)
  have "0 \<le> z" and "z < 30"
    using assms by (simp_all add: z_def)
  then have fl: "0 \<le> \<lfloor>z\<rfloor>" "\<lfloor>z\<rfloor> \<le> 29"
    by (simp_all add: le_floor_iff floor_le_iff)
  have tn: "hundredths x = nat (70 + \<lfloor>z\<rfloor>)"
    unfolding hundredths_def eq by (simp only: int_add_floor [symmetric])
  show "70 \<le> hundredths x" and "hundredths x \<le> 99"
    unfolding tn using fl by linarith+
qed

section \<open>Facts about doubles\<close>

text \<open>
  Rounding never crosses a double: a bound that is a whole multiple of the spacing at
  \<open>x\<close> also bounds the rounded \<open>x\<close>. Whole numbers are such bounds for every \<open>x\<close> below
  \<open>2^53\<close> in magnitude. The spacing is fixed by the powers of two around \<open>x\<close>.
\<close>

lemma round_half_even_le: "y \<le> of_int m \<Longrightarrow> round_half_even y \<le> m"
proof -
  assume a: "y \<le> of_int m"
  show ?thesis
  proof (cases "y = of_int m")
    case True
    then show ?thesis by (simp add: round_half_even_def)
  next
    case False
    with a have "y < of_int m" by simp
    then have "\<lfloor>y\<rfloor> < m" by (simp add: floor_less_iff)
    then show ?thesis by (simp add: round_half_even_def Let_def)
  qed
qed

lemma round_half_even_ge: "of_int m \<le> y \<Longrightarrow> m \<le> round_half_even y"
proof -
  assume "of_int m \<le> y"
  then have "m \<le> \<lfloor>y\<rfloor>" by (simp add: le_floor_iff)
  then show ?thesis by (simp add: round_half_even_def Let_def)
qed

lemma round_half_even_below_half:
  assumes "y < of_int m + 1 / 2"
  shows "round_half_even y \<le> m"
proof (cases "\<lfloor>y\<rfloor> < m")
  case True
  then show ?thesis by (simp add: round_half_even_def Let_def)
next
  case False
  have "y < of_int (m + 1)" using assms by simp
  then have "\<lfloor>y\<rfloor> < m + 1" by (simp only: floor_less_iff)
  with False have f: "\<lfloor>y\<rfloor> = m" by simp
  then have "y - of_int \<lfloor>y\<rfloor> < 1 / 2" using assms by simp
  then show ?thesis using f by (simp add: round_half_even_def Let_def)
qed

lemma round_half_even_close: "\<bar>of_int (round_half_even y) - y\<bar> \<le> 1 / 2"
proof -
  have "of_int \<lfloor>y\<rfloor> \<le> y" "y < of_int \<lfloor>y\<rfloor> + 1" by linarith+
  then show ?thesis
    by (auto simp: round_half_even_def Let_def)
qed

lemma ulp_pos: "0 < ulp x"
  by (simp add: ulp_def)

lemma round_double_le:
  assumes "B / ulp x = of_int m" and "x \<le> B"
  shows "round_double x \<le> B"
proof -
  have "x / ulp x \<le> B / ulp x"
    using assms(2) ulp_pos [of x] by (simp add: divide_right_mono)
  then have "round_half_even (x / ulp x) \<le> m"
    unfolding assms(1) by (rule round_half_even_le)
  then have "of_int (round_half_even (x / ulp x)) * ulp x \<le> of_int m * ulp x"
    using ulp_pos [of x] by (simp add: mult_right_mono)
  also have "of_int m * ulp x = B"
    using assms(1) ulp_pos [of x] by (simp add: field_simps)
  finally show ?thesis by (simp add: round_double_def)
qed

lemma round_double_ge:
  assumes "A / ulp x = of_int m" and "A \<le> x"
  shows "A \<le> round_double x"
proof -
  have "A / ulp x \<le> x / ulp x"
    using assms(2) ulp_pos [of x] by (simp add: divide_right_mono)
  then have "m \<le> round_half_even (x / ulp x)"
    unfolding assms(1) by (rule round_half_even_ge)
  then have "of_int m * ulp x \<le> of_int (round_half_even (x / ulp x)) * ulp x"
    using ulp_pos [of x] by (simp add: mult_right_mono)
  moreover have "of_int m * ulp x = A"
    using assms(1) ulp_pos [of x] by (simp add: field_simps)
  ultimately show ?thesis by (simp add: round_double_def)
qed

lemma round_double_below_half:
  assumes "G / ulp x = of_int m" and "x < G + ulp x / 2"
  shows "round_double x \<le> G"
proof -
  have "x / ulp x < (G + ulp x / 2) / ulp x"
    using assms(2) ulp_pos [of x] by (simp add: divide_strict_right_mono)
  also have "\<dots> = of_int m + 1 / 2"
    using assms(1) ulp_pos [of x] by (simp add: add_divide_distrib)
  finally have "round_half_even (x / ulp x) \<le> m"
    by (rule round_half_even_below_half)
  then have "of_int (round_half_even (x / ulp x)) * ulp x \<le> of_int m * ulp x"
    using ulp_pos [of x] by (simp add: mult_right_mono)
  also have "of_int m * ulp x = G"
    using assms(1) ulp_pos [of x] by (simp add: field_simps)
  finally show ?thesis by (simp add: round_double_def)
qed

lemma quantum_exp_le:
  assumes "\<bar>x\<bar> * 2 ^ subnormal_bits < 2 ^ n"
  shows "quantum_exp x \<le> n - 53"
proof -
  have "\<lfloor>\<bar>x\<bar> * 2 ^ subnormal_bits\<rfloor> < 2 ^ nat (int n)"
    using assms by (simp add: floor_less_iff)
  then have "bitlen \<lfloor>\<bar>x\<bar> * 2 ^ subnormal_bits\<rfloor> \<le> int n"
    by (simp only: bitlen_le_iff_power) simp
  then show ?thesis by (simp add: quantum_exp_def)
qed

lemma quantum_exp_eq:
  assumes "2 ^ n \<le> \<bar>x\<bar> * 2 ^ subnormal_bits" and "\<bar>x\<bar> * 2 ^ subnormal_bits < 2 ^ Suc n"
  shows "quantum_exp x = Suc n - 53"
proof -
  have e: "nat (int n + 1) - 1 = n" "nat (int n + 1) = Suc n"
    by (simp_all add: nat_add_distrib)
  have "(2::int) ^ n \<le> \<lfloor>\<bar>x\<bar> * 2 ^ subnormal_bits\<rfloor>"
    using assms(1) by (simp add: le_floor_iff)
  then have "int n + 1 \<le> bitlen \<lfloor>\<bar>x\<bar> * 2 ^ subnormal_bits\<rfloor>"
    unfolding bitlen_ge_iff_power e by simp
  moreover have "\<lfloor>\<bar>x\<bar> * 2 ^ subnormal_bits\<rfloor> < 2 ^ Suc n"
    using assms(2) by (simp add: floor_less_iff)
  then have "bitlen \<lfloor>\<bar>x\<bar> * 2 ^ subnormal_bits\<rfloor> \<le> int n + 1"
    unfolding bitlen_le_iff_power e by simp
  ultimately have "bitlen \<lfloor>\<bar>x\<bar> * 2 ^ subnormal_bits\<rfloor> = int n + 1" by simp
  then show ?thesis by (simp add: quantum_exp_def)
qed

lemma round_half_even_of_int: "round_half_even (of_int m) = m"
  by (simp add: round_half_even_def)

lemma round_double_fixed:
  assumes "x / ulp x = of_int m"
  shows "round_double x = x"
proof -
  have "of_int m * ulp x = x"
    using assms ulp_pos [of x] by (simp add: field_simps)
  then show ?thesis
    by (simp add: round_double_def assms round_half_even_of_int)
qed

lemma ulp_divides_int:
  assumes "\<bar>x\<bar> < 2 ^ 53"
  shows "\<exists>m. of_int k / ulp x = of_int m"
proof -
  have "\<bar>x\<bar> * 2 ^ subnormal_bits < 2 ^ 53 * 2 ^ subnormal_bits"
    using assms by (simp only: mult_strict_right_mono zero_less_power zero_less_numeral)
  also have "\<dots> = 2 ^ (53 + subnormal_bits)"
    by (simp only: power_add)
  finally have q: "quantum_exp x \<le> subnormal_bits"
    using quantum_exp_le [of x "53 + subnormal_bits"] by simp
  have "(2::rat) ^ (subnormal_bits - quantum_exp x) = 2 ^ subnormal_bits / 2 ^ quantum_exp x"
    using q by (simp add: power_diff)
  then have "of_int k / ulp x = of_int (k * 2 ^ (subnormal_bits - quantum_exp x))"
    by (simp add: ulp_def)
  then show ?thesis ..
qed

lemma round_double_int_le:
  assumes "\<bar>x\<bar> < 2 ^ 53" and "x \<le> of_int B"
  shows "round_double x \<le> of_int B"
proof -
  obtain m where "of_int B / ulp x = of_int m"
    using ulp_divides_int [OF assms(1)] by blast
  then show ?thesis using assms(2) by (rule round_double_le)
qed

lemma round_double_int_ge:
  assumes "\<bar>x\<bar> < 2 ^ 53" and "of_int A \<le> x"
  shows "of_int A \<le> round_double x"
proof -
  obtain m where "of_int A / ulp x = of_int m"
    using ulp_divides_int [OF assms(1)] by blast
  then show ?thesis using assms(2) by (rule round_double_ge)
qed

lemma round_double_of_int:
  assumes "\<bar>of_int k :: rat\<bar> < 2 ^ 53"
  shows "round_double (of_int k) = of_int k"
  using round_double_int_le [OF assms, of k] round_double_int_ge [OF assms, of k] by simp

lemma ulp_from_one:
  assumes "2 ^ k \<le> \<bar>x\<bar>" and "\<bar>x\<bar> < 2 ^ Suc k" and "k \<le> 52"
  shows "ulp x = 1 / 2 ^ (52 - k)"
proof -
  have lo: "2 ^ (k + subnormal_bits) \<le> \<bar>x\<bar> * 2 ^ subnormal_bits"
    using assms(1) by (simp only: power_add mult_right_mono zero_le_power zero_le_numeral)
  have "\<bar>x\<bar> * 2 ^ subnormal_bits < 2 ^ Suc k * 2 ^ subnormal_bits"
    using assms(2) by (simp only: mult_strict_right_mono zero_less_power zero_less_numeral)
  also have "\<dots> = 2 ^ Suc (k + subnormal_bits)"
    by (simp add: power_add)
  finally have "quantum_exp x = Suc (k + subnormal_bits) - 53"
    using lo by (intro quantum_exp_eq)
  then have q: "quantum_exp x = k + 1022"
    by (simp add: subnormal_bits_def)
  have sk: "subnormal_bits = (k + 1022) + (52 - k)"
    using assms(3) by (simp add: subnormal_bits_def)
  have "(2::rat) ^ subnormal_bits = 2 ^ (k + 1022) * 2 ^ (52 - k)"
    by (subst sk) (rule power_add)
  then show ?thesis by (simp add: ulp_def q)
qed

lemma ulp_below_one:
  assumes "1 / 2 ^ Suc j \<le> \<bar>x\<bar>" and "\<bar>x\<bar> < 1 / 2 ^ j" and "j \<le> 1021"
  shows "ulp x = 1 / 2 ^ (53 + j)"
proof -
  have sj: "subnormal_bits = (1073 - j) + Suc j" and sj': "subnormal_bits = Suc (1073 - j) + j"
    using assms(3) by (simp_all add: subnormal_bits_def)
  have "(2::rat) ^ subnormal_bits = 2 ^ (1073 - j) * 2 ^ Suc j"
    by (subst sj) (rule power_add)
  then have "(2::rat) ^ (1073 - j) = 1 / 2 ^ Suc j * 2 ^ subnormal_bits"
    by simp
  also have "\<dots> \<le> \<bar>x\<bar> * 2 ^ subnormal_bits"
    using assms(1) by (simp only: mult_right_mono zero_le_power zero_le_numeral)
  finally have lo: "2 ^ (1073 - j) \<le> \<bar>x\<bar> * 2 ^ subnormal_bits" .
  have "(2::rat) ^ subnormal_bits = 2 ^ Suc (1073 - j) * 2 ^ j"
    by (subst sj') (rule power_add)
  then have e: "1 / 2 ^ j * 2 ^ subnormal_bits = (2::rat) ^ Suc (1073 - j)"
    by simp
  have "\<bar>x\<bar> * 2 ^ subnormal_bits < 1 / 2 ^ j * 2 ^ subnormal_bits"
    using assms(2) by (simp only: mult_strict_right_mono zero_less_power zero_less_numeral)
  then have hi: "\<bar>x\<bar> * 2 ^ subnormal_bits < 2 ^ Suc (1073 - j)"
    unfolding e .
  have "quantum_exp x = Suc (1073 - j) - 53"
    using lo hi by (rule quantum_exp_eq)
  then have q: "quantum_exp x = 1021 - j"
    using assms(3) by simp
  have sq: "subnormal_bits = (1021 - j) + (53 + j)"
    using assms(3) by (simp add: subnormal_bits_def)
  have "(2::rat) ^ subnormal_bits = 2 ^ (1021 - j) * 2 ^ (53 + j)"
    by (subst sq) (rule power_add)
  then show ?thesis by (simp add: ulp_def q)
qed

lemma double_below_one:
  assumes "is_double r" and "0 \<le> r" and "r < 1"
  shows "r \<le> 1 - 1 / 2 ^ 53"
proof (cases "r < 1 / 2")
  case True
  then show ?thesis by simp
next
  case False
  then have u: "ulp r = 1 / 2 ^ 53"
    using assms(2,3) ulp_below_one [of 0 r] by simp
  define m where "m = round_half_even (r / ulp r)"
  have "r = of_int m * ulp r"
    using assms(1) by (simp add: is_double_def round_double_def m_def)
  then have r: "r = of_int m / 2 ^ 53"
    by (simp add: u)
  then have "of_int m < (2::rat) ^ 53"
    using assms(3) by simp
  then have "m < 2 ^ 53"
    by (simp only: of_int_less_numeral_power_cancel_iff)
  then have "m \<le> 2 ^ 53 - 1" by simp
  then have "(of_int m :: rat) \<le> of_int (2 ^ 53 - 1)"
    by (simp only: of_int_le_iff)
  then have "(of_int m :: rat) \<le> 2 ^ 53 - 1"
    by simp
  then have "of_int m / (2::rat) ^ 53 \<le> (2 ^ 53 - 1) / 2 ^ 53"
    by (simp only: divide_right_mono zero_le_power zero_le_numeral)
  then show ?thesis unfolding r by (simp add: diff_divide_distrib)
qed

lemma round_half_even_above_half:
  assumes "of_int m - 1 / 2 < y"
  shows "m \<le> round_half_even y"
proof (cases "m \<le> \<lfloor>y\<rfloor>")
  case True
  then show ?thesis by (simp add: round_half_even_def Let_def)
next
  case False
  have "of_int (m - 1) \<le> y" using assms by simp
  then have "m - 1 \<le> \<lfloor>y\<rfloor>" by (simp only: le_floor_iff)
  with False have f: "\<lfloor>y\<rfloor> = m - 1" by simp
  then have "1 / 2 < y - of_int \<lfloor>y\<rfloor>" using assms by simp
  then show ?thesis using f by (simp add: round_half_even_def Let_def)
qed

lemma round_half_even_nearest:
  assumes "of_int m - 1 / 2 < y" and "y < of_int m + 1 / 2"
  shows "round_half_even y = m"
  using round_half_even_above_half [OF assms(1)] round_half_even_below_half [OF assms(2)]
  by simp

lemma literal_0_7: "round_double (7 / 10) = 6305039478318694 / 2 ^ 53"
proof -
  have u: "ulp (7 / 10) = 1 / 2 ^ 53"
    using ulp_below_one [of 0 "7 / 10"] by simp
  have "round_half_even (7 / 10 * 2 ^ 53) = 6305039478318694"
    by (rule round_half_even_nearest) simp_all
  then show ?thesis by (simp add: round_double_def u)
qed

lemma literal_0_9: "round_double (9 / 10) = 8106479329266893 / 2 ^ 53"
proof -
  have u: "ulp (9 / 10) = 1 / 2 ^ 53"
    using ulp_below_one [of 0 "9 / 10"] by simp
  have "round_half_even (9 / 10 * 2 ^ 53) = 8106479329266893"
    by (rule round_half_even_nearest) simp_all
  then show ?thesis by (simp add: round_double_def u)
qed

lemma literal_0_29: "round_double (29 / 100) = 5224175567749775 / 2 ^ 54"
proof -
  have u: "ulp (29 / 100) = 1 / 2 ^ 54"
    using ulp_below_one [of 1 "29 / 100"] by simp
  have "round_half_even (29 / 100 * 2 ^ 54) = 5224175567749775"
    by (rule round_half_even_nearest) simp_all
  then show ?thesis by (simp add: round_double_def u)
qed

lemma dyadic_double:
  assumes "1 / 2 \<le> x" and "x < 1" and "x * 2 ^ 53 = of_int m"
  shows "is_double x"
proof -
  have u: "ulp x = 1 / 2 ^ 53"
    using assms(1,2) ulp_below_one [of 0 x] by simp
  have "x / ulp x = of_int m" using assms(3) by (simp add: u)
  then have "round_double x = x" by (rule round_double_fixed)
  moreover have "\<bar>x\<bar> < 2 ^ 1024"
  proof -
    have "\<bar>x\<bar> < 1" using assms(1,2) by simp
    also have "(1::rat) \<le> 2 ^ 1024" by (rule one_le_power) simp
    finally show ?thesis .
  qed
  ultimately show ?thesis by (simp add: is_double_def)
qed

lemma is_double_half: "is_double (1 / 2)"
  by (rule dyadic_double [where m = "2 ^ 52"]) simp_all

lemma is_double_three_quarters: "is_double (3 / 4)"
  by (rule dyadic_double [where m = "3 * 2 ^ 51"]) simp_all

lemma is_double_fifteen_sixteenths: "is_double (15 / 16)"
  by (rule dyadic_double [where m = "15 * 2 ^ 49"]) simp_all

lemma literal_0_7_agrees:
  assumes "is_double r"
  shows "round_double (7 / 10) < r \<longleftrightarrow> 7 / 10 < r"
proof
  assume "7 / 10 < r"
  then show "round_double (7 / 10) < r" by (simp add: literal_0_7)
next
  assume a: "round_double (7 / 10) < r"
  show "7 / 10 < r"
  proof (cases "r < 1")
    case False
    then show ?thesis by simp
  next
    case True
    have lo: "1 / 2 \<le> r" using a by (simp add: literal_0_7)
    then have u: "ulp r = 1 / 2 ^ 53"
      using True ulp_below_one [of 0 r] by simp
    define m where "m = round_half_even (r / ulp r)"
    have "r = of_int m * ulp r"
      using assms by (simp add: is_double_def round_double_def m_def)
    then have r: "r = of_int m / 2 ^ 53" by (simp add: u)
    have "(6305039478318694::rat) < of_int m"
      using a unfolding r literal_0_7 by (simp add: divide_less_cancel)
    then have "(of_int 6305039478318694 :: rat) < of_int m" by simp
    then have "6305039478318694 < m" by (simp only: of_int_less_iff)
    then have "6305039478318695 \<le> m" by simp
    then have "(of_int 6305039478318695 :: rat) \<le> of_int m"
      by (simp only: of_int_le_iff)
    then have "(6305039478318695::rat) \<le> of_int m" by simp
    then have "6305039478318695 / 2 ^ 53 \<le> r"
      unfolding r by (simp only: divide_right_mono zero_le_power zero_le_numeral)
    then show ?thesis by simp
  qed
qed

text \<open>A product of a draw with a whole number that is no power of two.\<close>

lemma dmul_draw_below:
  assumes "is_double r" and "0 \<le> r" and "r < 1"
    and "2 ^ k < (of_nat c :: rat)" and "(of_nat c :: rat) < 2 ^ Suc k" and "k \<le> 52"
  shows "0 \<le> dmul r (of_nat c)" and "dmul r (of_nat c) < of_nat c"
proof -
  define x where "x = r * of_nat c"
  have c0: "(0::rat) < of_nat c"
    using assms(4) by (meson less_trans zero_less_numeral zero_less_power)
  have x0: "0 \<le> x" using assms(2) c0 by (simp add: x_def)
  have xc: "x < of_nat c" using assms(3) c0 by (simp add: x_def)
  have "(2::rat) ^ Suc k \<le> 2 ^ 53"
    using assms(6) by (intro power_increasing) simp_all
  then have small: "\<bar>x\<bar> < 2 ^ 53" using x0 xc assms(5) by simp
  have "of_int 0 \<le> round_double x"
    using small x0 by (intro round_double_int_ge) simp_all
  then show "0 \<le> dmul r (of_nat c)" by (simp add: dmul_def x_def)
  have "r \<le> 1 - 1 / 2 ^ 53" using assms(1-3) by (rule double_below_one)
  then have "r * of_nat c \<le> (1 - 1 / 2 ^ 53) * of_nat c"
    using c0 by (simp only: mult_right_mono less_imp_le)
  then have xs: "x \<le> of_nat c - of_nat c / 2 ^ 53"
    by (simp add: x_def algebra_simps)
  have "round_double x < of_nat c"
  proof (cases "x < 2 ^ k")
    case True
    have "(2::rat) ^ k = of_int (2 ^ k)" by simp
    then have "round_double x \<le> 2 ^ k"
      using round_double_int_le [OF small, of "2 ^ k"] True by simp
    then show ?thesis using assms(4) by linarith
  next
    case False
    then have "2 ^ k \<le> \<bar>x\<bar>" "\<bar>x\<bar> < 2 ^ Suc k"
      using x0 xc assms(5) by simp_all
    then have u: "ulp x = 1 / 2 ^ (52 - k)"
      using assms(6) by (rule ulp_from_one)
    define G :: rat where "G = of_nat c - 1 / 2 ^ (52 - k)"
    have "G / ulp x = of_int (int c * 2 ^ (52 - k) - 1)"
      by (simp add: G_def u field_simps)
    moreover have "x < G + ulp x / 2"
    proof -
      have s: "53 = Suc (52 - k) + k" using assms(6) by simp
      have "(2::rat) ^ 53 = 2 ^ Suc (52 - k) * 2 ^ k"
        by (subst s) (rule power_add)
      then have "1 / 2 ^ Suc (52 - k) = (2::rat) ^ k / 2 ^ 53"
        by (simp add: field_simps)
      also have "\<dots> < of_nat c / 2 ^ 53"
        using assms(4) by (simp only: divide_strict_right_mono zero_less_power zero_less_numeral)
      finally have "1 / 2 ^ Suc (52 - k) < (of_nat c :: rat) / 2 ^ 53" .
      moreover have "G + ulp x / 2 = of_nat c - 1 / 2 ^ Suc (52 - k)"
        by (simp add: G_def u field_simps)
      ultimately show ?thesis using xs by simp
    qed
    ultimately have "round_double x \<le> G" by (rule round_double_below_half)
    moreover have "G < of_nat c" by (simp add: G_def)
    ultimately show ?thesis by simp
  qed
  then show "dmul r (of_nat c) < of_nat c" by (simp add: dmul_def x_def)
qed

section \<open>The confidence of the local evaluators\<close>

lemma mock_confidence_bounds:
  assumes "0 \<le> rnd" and "rnd < 1"
  shows "75 \<le> dadd 75 (dmul rnd 20)" and "dadd 75 (dmul rnd 20) \<le> 95"
proof -
  define y where "y = dmul rnd 20"
  have x1: "0 \<le> rnd * 20" "rnd * 20 \<le> 20" using assms by simp_all
  then have s1: "\<bar>rnd * 20\<bar> < 2 ^ 53" by simp
  have "of_int 0 \<le> round_double (rnd * 20)"
    using s1 x1(1) by (intro round_double_int_ge) simp_all
  moreover have "round_double (rnd * 20) \<le> of_int 20"
    using s1 x1(2) by (intro round_double_int_le) simp_all
  ultimately have y: "0 \<le> y" "y \<le> 20" by (simp_all add: y_def dmul_def)
  then have s2: "\<bar>75 + y\<bar> < 2 ^ 53" by simp
  have "of_int 75 \<le> round_double (75 + y)"
    using s2 y(1) by (intro round_double_int_ge) simp_all
  moreover have "round_double (75 + y) \<le> of_int 95"
    using s2 y(2) by (intro round_double_int_le) simp_all
  ultimately show "75 \<le> dadd 75 (dmul rnd 20)" and "dadd 75 (dmul rnd 20) \<le> 95"
    by (simp_all add: dadd_def y_def)
qed

lemma quantum_exp_below_half:
  assumes "\<bar>x\<bar> < 1 / 2"
  shows "quantum_exp x \<le> 1020"
proof -
  have s: "subnormal_bits = Suc 1073" by (simp add: subnormal_bits_def)
  have "(2::rat) ^ subnormal_bits = 2 * 2 ^ 1073"
    by (subst s) (rule power_Suc)
  then have e: "1 / 2 * 2 ^ subnormal_bits = (2::rat) ^ 1073" by simp
  have "\<bar>x\<bar> * 2 ^ subnormal_bits < 1 / 2 * 2 ^ subnormal_bits"
    using assms by (simp only: mult_strict_right_mono zero_less_power zero_less_numeral)
  then have "\<bar>x\<bar> * 2 ^ subnormal_bits < 2 ^ 1073" unfolding e .
  then have "quantum_exp x \<le> 1073 - 53" by (rule quantum_exp_le)
  then show ?thesis by simp
qed

lemma legacy_product_bounds:
  assumes "0 \<le> rnd" and "rnd < 1"
  shows "0 \<le> dmul rnd (round_double (29 / 100))"
    and "dmul rnd (round_double (29 / 100)) \<le> 5224175567749775 / 2 ^ 54"
proof -
  define x where "x = rnd * (5224175567749775 / 2 ^ 54)"
  have x0: "0 \<le> x" using assms(1) by (simp add: x_def)
  have "x \<le> 1 * (5224175567749775 / 2 ^ 54)"
    unfolding x_def using assms(2) by (intro mult_right_mono) simp_all
  then have xb: "x \<le> 5224175567749775 / 2 ^ 54" by simp
  then have half: "\<bar>x\<bar> < 1 / 2" using x0 by simp
  then have small: "\<bar>x\<bar> < 2 ^ 53" by simp
  have "of_int 0 \<le> round_double x"
    using small x0 by (intro round_double_int_ge) simp_all
  then show "0 \<le> dmul rnd (round_double (29 / 100))"
    by (simp add: dmul_def literal_0_29 x_def)
  have q: "quantum_exp x \<le> 1020" using half by (rule quantum_exp_below_half)
  have sb: "subnormal_bits = 54 + (1020 - quantum_exp x) + quantum_exp x"
    using q by (simp add: subnormal_bits_def)
  have "(2::rat) ^ subnormal_bits = 2 ^ 54 * 2 ^ (1020 - quantum_exp x) * 2 ^ quantum_exp x"
    by (subst sb) (simp only: power_add)
  then have "(5224175567749775 / 2 ^ 54) / ulp x =
      of_int (5224175567749775 * 2 ^ (1020 - quantum_exp x))"
    by (simp add: ulp_def)
  then have "round_double x \<le> 5224175567749775 / 2 ^ 54"
    using xb by (rule round_double_le)
  then show "dmul rnd (round_double (29 / 100)) \<le> 5224175567749775 / 2 ^ 54"
    by (simp add: dmul_def literal_0_29 x_def)
qed

lemma legacy_confidence_bounds:
  assumes "0 \<le> rnd" and "rnd < 1"
  shows "6305039478318694 / 2 ^ 53
           \<le> dadd (round_double (7 / 10)) (dmul rnd (round_double (29 / 100)))"
    and "dadd (round_double (7 / 10)) (dmul rnd (round_double (29 / 100)))
           \<le> 8917127262193582 / 2 ^ 53"
proof -
  define y where "y = dmul rnd (round_double (29 / 100))"
  define x where "x = 6305039478318694 / 2 ^ 53 + y"
  have y: "0 \<le> y" "y \<le> 5224175567749775 / 2 ^ 54"
    using legacy_product_bounds [OF assms] by (simp_all add: y_def)
  have lo: "6305039478318694 / 2 ^ 53 \<le> x" using y(1) by (simp add: x_def)
  have hi: "x \<le> 8917127262193582 / 2 ^ 53" using y(2) by (simp add: x_def)
  have "1 / 2 ^ Suc 0 \<le> \<bar>x\<bar>" and "\<bar>x\<bar> < 1 / 2 ^ 0"
    using lo hi by simp_all
  then have u: "ulp x = 1 / 2 ^ 53"
    using ulp_below_one [of 0 x] by simp
  have "(6305039478318694 / 2 ^ 53) / ulp x = of_int 6305039478318694"
    by (simp add: u)
  then have a: "6305039478318694 / 2 ^ 53 \<le> round_double x"
    using lo by (rule round_double_ge)
  have "(8917127262193582 / 2 ^ 53) / ulp x = of_int 8917127262193582"
    by (simp add: u)
  then have b: "round_double x \<le> 8917127262193582 / 2 ^ 53"
    using hi by (rule round_double_le)
  show "6305039478318694 / 2 ^ 53
           \<le> dadd (round_double (7 / 10)) (dmul rnd (round_double (29 / 100)))"
    and "dadd (round_double (7 / 10)) (dmul rnd (round_double (29 / 100)))
           \<le> 8917127262193582 / 2 ^ 53"
    using a b by (simp_all add: dadd_def literal_0_7 x_def y_def)
qed

lemma toFixed2_below_one:
  assumes "0 \<le> x" and "hundredths x < 100"
  shows "toFixed2 x =
      [CHR ''0'', CHR ''.'', digit_char (hundredths x div 10), digit_char (hundredths x mod 10)]"
  using assms by (simp add: toFixed2_def decimal_one_digit digit_char_def)

lemma round_double_numeral:
  "(numeral n :: rat) < 2 ^ 53 \<Longrightarrow> round_double (numeral n) = numeral n"
  using round_double_of_int [of "numeral n"] by simp

lemma mock_confidence_half: "dadd 75 (dmul (1 / 2) 20) = 85"
  by (simp add: dadd_def dmul_def round_double_numeral)

lemma batch_number_half: "batch_number (1 / 2) = 5500"
  by (simp add: batch_number_def dmul_def round_double_numeral)

lemma legacy_confidence_half:
  "dadd (round_double (7 / 10)) (dmul (1 / 2) (round_double (29 / 100))) =
     7611083370256138 / 2 ^ 53"
proof -
  define x :: rat where "x = 5224175567749775 / 2 ^ 55"
  have "1 / 2 ^ Suc 2 \<le> \<bar>x\<bar>" and "\<bar>x\<bar> < 1 / 2 ^ 2"
    by (simp_all add: x_def)
  then have u: "ulp x = 1 / 2 ^ 55"
    using ulp_below_one [of 2 x] by simp
  have "x / ulp x = x * 2 ^ 55" by (simp add: u)
  also have "\<dots> = of_int 5224175567749775" by (simp add: x_def)
  finally have "round_double x = x" by (rule round_double_fixed)
  then have p: "dmul (1 / 2) (round_double (29 / 100)) = x"
    by (simp add: dmul_def literal_0_29 x_def)
  define s :: rat where "s = 6305039478318694 / 2 ^ 53 + x"
  have "1 / 2 ^ Suc 0 \<le> \<bar>s\<bar>" and "\<bar>s\<bar> < 1 / 2 ^ 0"
    by (simp_all add: s_def x_def)
  then have us: "ulp s = 1 / 2 ^ 53"
    using ulp_below_one [of 0 s] by simp
  have "round_half_even (s * 2 ^ 53) = 7611083370256138"
    by (rule round_half_even_nearest) (simp_all add: s_def x_def)
  moreover have "s / ulp s = s * 2 ^ 53" by (simp add: us)
  ultimately have "round_double s = 7611083370256138 / 2 ^ 53"
    by (simp add: round_double_def us)
  then show ?thesis
    by (simp add: dadd_def p literal_0_7 s_def)
qed

lemma legacy_confidence_half_shown:
  "toFixed2 (dadd (round_double (7 / 10)) (dmul (1 / 2) (round_double (29 / 100)))) = ''0.84''"
proof -
  define c :: rat where "c = 7611083370256138 / 2 ^ 53"
  have c0: "0 \<le> c" by (simp add: c_def)
  have "\<lfloor>c * 100 + 1 / 2\<rfloor> = 84"
    by (simp add: floor_eq_iff c_def)
  then have h: "hundredths c = 84"
    using c0 by (simp add: hundredths_def)
  have "toFixed2 c = ''0.84''"
    using toFixed2_below_one [OF c0] by (simp add: h digit_char_def)
  then show ?thesis
    unfolding legacy_confidence_half c_def .
qed

text \<open>
  Two draws at which the rounding decides: the exact product
  \<open>372297569195961 / 2^53 * 9000\<close> lies below 372 and the double product is 372, so the
  batch is 1372; the exact sum \<open>75 + 4526117625507349 / 2^53 * 20\<close> lies above 85.05 and
  the double sum below, so the confidence printed is \<^verbatim>\<open>85.0\<close>.
\<close>

lemma rounded_product_example:
  "batch_number (372297569195961 / 2 ^ 53) = 1372"
proof -
  define r0 :: rat where "r0 = 372297569195961 / 2 ^ 53"
  define x :: rat where "x = r0 * 9000"
  have "2 ^ 8 \<le> \<bar>x\<bar>" and "\<bar>x\<bar> < 2 ^ Suc 8"
    by (simp_all add: x_def r0_def)
  then have u: "ulp x = 1 / 2 ^ (52 - 8)"
    by (rule ulp_from_one) simp
  have r: "round_half_even (x * 2 ^ 44) = 6544293208522752"
    by (rule round_half_even_nearest) (simp_all add: x_def r0_def)
  have rx: "round_double x = 372"
    using r by (simp add: round_double_def u)
  have "dmul r0 9000 = 372"
    unfolding dmul_def x_def [symmetric] by (rule rx)
  then have "batch_number r0 = 1372"
    by (simp add: batch_number_def)
  then show ?thesis unfolding r0_def .
qed

lemma rounded_sum_example:
  "confidence (mockRes u (4526117625507349 / 2 ^ 53)) = ''85.0''"
proof -
  define r0 :: rat where "r0 = 4526117625507349 / 2 ^ 53"
  define x :: rat where "x = r0 * 20"
  define y :: rat where "y = 5657647031884186 / 2 ^ 49"
  define s :: rat where "s = 75 + y"
  define v :: rat where "v = 5984861692310323 / 2 ^ 46"
  have "2 ^ 3 \<le> \<bar>x\<bar>" and "\<bar>x\<bar> < 2 ^ Suc 3"
    by (simp_all add: x_def r0_def)
  then have u: "ulp x = 1 / 2 ^ (52 - 3)"
    by (rule ulp_from_one) simp
  have r: "round_half_even (x * 2 ^ 49) = 5657647031884186"
    by (rule round_half_even_nearest) (simp_all add: x_def r0_def)
  have rx: "round_double x = y"
    using r by (simp add: round_double_def u y_def)
  have p: "dmul r0 20 = y"
    unfolding dmul_def x_def [symmetric] by (rule rx)
  have "2 ^ 6 \<le> \<bar>s\<bar>" and "\<bar>s\<bar> < 2 ^ Suc 6"
    by (simp_all add: s_def y_def)
  then have us: "ulp s = 1 / 2 ^ (52 - 6)"
    by (rule ulp_from_one) simp
  have rs: "round_half_even (s * 2 ^ 46) = 5984861692310323"
    by (rule round_half_even_nearest) (simp_all add: s_def y_def)
  have rv: "round_double s = v"
    using rs by (simp add: round_double_def us v_def)
  have c: "dadd 75 (dmul r0 20) = v"
    unfolding dadd_def p s_def [symmetric] by (rule rv)
  have v0: "\<not> v < 0" by (simp add: v_def)
  have "\<lfloor>\<bar>v\<bar> * 10 + 1 / 2\<rfloor> = 850"
    by (simp add: floor_eq_iff v_def)
  then have t: "tenths v = 850" by (simp add: tenths_def)
  have d: "decimal 85 = ''85''" "decimal 0 = ''0''"
    by (simp_all add: decimal_more_digits decimal_one_digit digit_char_def)
  have "toFixed1 v = ''85.0''"
    using v0 by (simp add: toFixed1_def t d)
  then have "confidence (mockRes u r0) = ''85.0''"
    by (simp add: mockRes_def c)
  then show ?thesis unfolding r0_def .
qed

section \<open>The local evaluators\<close>

text \<open>
  Claim C4 as stated gives one policy for the evaluation of a url without the service.
  The earlier variant evaluates differently: the url of 32 characters
  \<^verbatim>\<open>http://example.com/account/login\<close>, which contains neither \<^verbatim>\<open>bank\<close> nor \<^verbatim>\<open>secure\<close>,
  is labelled Phishing with risk CRITICAL, and at the draw 1/2 its confidence is \<^verbatim>\<open>0.84\<close>.
\<close>

theorem legacy_evaluator_counterexample:
  "length plain_url = 32
   \<and> \<not> str_includes plain_url ''bank''
   \<and> \<not> str_includes plain_url ''secure''
   \<and> legacy_mockRes plain_url (1 / 2) =
       \<lparr>prediction = ''Phishing'', confidence = ''0.84'', risk = ''CRITICAL''\<rparr>"
  by (simp add: plain_url_def legacy_mockRes_def legacy_isPhish_def legacy_confidence_half_shown)

text \<open>
  Claim C4, amended to the two evaluators. In App.jsx, for every url, the fallback
  branch labels the url \<^verbatim>\<open>phishing\<close> exactly when it contains \<^verbatim>\<open>bank\<close>, contains \<^verbatim>\<open>secure\<close>
  or is longer than 50 characters, and \<^verbatim>\<open>benign\<close> otherwise; the risk is \<^verbatim>\<open>CRITICAL\<close>
  exactly for \<^verbatim>\<open>phishing\<close> and \<^verbatim>\<open>LOW\<close> otherwise; and for a draw in [0, 1) the confidence
  is a number of tenths between 75.0 and 95.0, the closest one to the double
  \<^verbatim>\<open>75 + draw * 20\<close>, printed as two digits, a point and one digit. In the earlier variant
  the url is labelled \<^verbatim>\<open>Phishing\<close> exactly when it contains \<^verbatim>\<open>bank\<close> or is longer than 30
  characters, and \<^verbatim>\<open>Benign\<close> otherwise; the risk is \<^verbatim>\<open>CRITICAL\<close> exactly for \<^verbatim>\<open>Phishing\<close> and
  \<^verbatim>\<open>LOW\<close> otherwise; and the confidence is a number of hundredths between 0.70 and 0.99,
  printed with two digits after the point.
\<close>

theorem local_evaluator_policies:
  assumes "0 \<le> rnd" and "rnd < 1"
  shows "(prediction (mockRes u rnd) = ''phishing'' \<longleftrightarrow>
            (\<exists>a b. u = a @ ''bank'' @ b) \<or> (\<exists>a b. u = a @ ''secure'' @ b) \<or> length u > 50)
       \<and> prediction (mockRes u rnd) = (if isPhish u then ''phishing'' else ''benign'')
       \<and> risk (mockRes u rnd) =
            (if prediction (mockRes u rnd) = ''phishing'' then ''CRITICAL'' else ''LOW'')
       \<and> (\<exists>n. 750 \<le> n \<and> n \<le> 950
              \<and> \<bar>of_nat n / 10 - dadd 75 (dmul rnd 20)\<bar> \<le> 1 / 20
              \<and> confidence (mockRes u rnd) =
                  [digit_char (n div 100), digit_char (n div 10 mod 10), CHR ''.'',
                   digit_char (n mod 10)])
       \<and> (prediction (legacy_mockRes u rnd) = ''Phishing'' \<longleftrightarrow>
            (\<exists>a b. u = a @ ''bank'' @ b) \<or> length u > 30)
       \<and> prediction (legacy_mockRes u rnd) = (if legacy_isPhish u then ''Phishing'' else ''Benign'')
       \<and> risk (legacy_mockRes u rnd) =
            (if prediction (legacy_mockRes u rnd) = ''Phishing'' then ''CRITICAL'' else ''LOW'')
       \<and> (\<exists>n. 70 \<le> n \<and> n \<le> 99
              \<and> confidence (legacy_mockRes u rnd) =
                  [CHR ''0'', CHR ''.'', digit_char (n div 10), digit_char (n mod 10)])"
proof -
  let ?c = "dadd 75 (dmul rnd 20)"
  let ?n = "tenths ?c"
  have cb: "75 \<le> ?c" "?c \<le> 95"
    using mock_confidence_bounds [OF assms] by simp_all
  have b: "750 \<le> ?n" "?n \<le> 950"
    using tenths_bounds [OF cb] by simp_all
  have phish: "isPhish u \<longleftrightarrow>
      (\<exists>a b. u = a @ ''bank'' @ b) \<or> (\<exists>a b. u = a @ ''secure'' @ b) \<or> length u > 50"
    unfolding isPhish_def str_includes_iff by blast
  have label: "prediction (mockRes u rnd) = ''phishing'' \<longleftrightarrow> isPhish u"
    by (simp add: mockRes_def)
  have pos: "\<not> ?c < 0" using cb by simp
  have d1: "decimal (?n div 10) = [digit_char (?n div 10 div 10), digit_char (?n div 10 mod 10)]"
    using b by (intro decimal_two_digits) simp_all
  have d2: "decimal (?n mod 10) = [digit_char (?n mod 10)]"
    by (intro decimal_one_digit) simp
  have conf: "confidence (mockRes u rnd) =
      [digit_char (?n div 100), digit_char (?n div 10 mod 10), CHR ''.'', digit_char (?n mod 10)]"
    using pos by (simp add: mockRes_def toFixed1_def d1 d2 div_10_div_10)
  have close: "\<bar>of_nat ?n / 10 - ?c\<bar> \<le> 1 / 20"
    using cb by (intro tenths_close) simp
  have risk: "risk (mockRes u rnd) =
      (if prediction (mockRes u rnd) = ''phishing'' then ''CRITICAL'' else ''LOW'')"
    by (simp add: mockRes_def)
  have pred: "prediction (mockRes u rnd) = (if isPhish u then ''phishing'' else ''benign'')"
    by (simp add: mockRes_def)
  have app: "\<exists>n. 750 \<le> n \<and> n \<le> 950
              \<and> \<bar>of_nat n / 10 - dadd 75 (dmul rnd 20)\<bar> \<le> 1 / 20
              \<and> confidence (mockRes u rnd) =
                  [digit_char (n div 100), digit_char (n div 10 mod 10), CHR ''.'',
                   digit_char (n mod 10)]"
    using b close conf by blast
  let ?l = "dadd (round_double (7 / 10)) (dmul rnd (round_double (29 / 100)))"
  let ?h = "hundredths ?l"
  have lb: "6305039478318694 / 2 ^ 53 \<le> ?l" "?l \<le> 8917127262193582 / 2 ^ 53"
    using legacy_confidence_bounds [OF assms] by simp_all
  have "695 / 1000 \<le> ?l" "?l \<le> 99 / 100"
    using lb by simp_all
  then have hb: "70 \<le> ?h" "?h \<le> 99"
    by (rule hundredths_bounds)+
  have l0: "0 \<le> ?l" using lb(1) by simp
  have lconf: "confidence (legacy_mockRes u rnd) =
      [CHR ''0'', CHR ''.'', digit_char (?h div 10), digit_char (?h mod 10)]"
    using toFixed2_below_one [OF l0] hb by (simp add: legacy_mockRes_def)
  have leg: "\<exists>n. 70 \<le> n \<and> n \<le> 99
              \<and> confidence (legacy_mockRes u rnd) =
                  [CHR ''0'', CHR ''.'', digit_char (n div 10), digit_char (n mod 10)]"
    using hb lconf by blast
  have lphish: "legacy_isPhish u \<longleftrightarrow> (\<exists>a b. u = a @ ''bank'' @ b) \<or> length u > 30"
    unfolding legacy_isPhish_def str_includes_iff by blast
  have llabel: "prediction (legacy_mockRes u rnd) = ''Phishing'' \<longleftrightarrow> legacy_isPhish u"
    by (simp add: legacy_mockRes_def)
  have lrisk: "risk (legacy_mockRes u rnd) =
      (if prediction (legacy_mockRes u rnd) = ''Phishing'' then ''CRITICAL'' else ''LOW'')"
    by (simp add: legacy_mockRes_def)
  have lpred: "prediction (legacy_mockRes u rnd) =
      (if legacy_isPhish u then ''Phishing'' else ''Benign'')"
    by (simp add: legacy_mockRes_def)
  from label phish have c1: "prediction (mockRes u rnd) = ''phishing'' \<longleftrightarrow>
      (\<exists>a b. u = a @ ''bank'' @ b) \<or> (\<exists>a b. u = a @ ''secure'' @ b) \<or> length u > 50"
    by simp
  from llabel lphish have c5: "prediction (legacy_mockRes u rnd) = ''Phishing'' \<longleftrightarrow>
      (\<exists>a b. u = a @ ''bank'' @ b) \<or> length u > 30"
    by simp
  show ?thesis
    by (intro conjI c1 pred risk app c5 lpred lrisk leg)
qed

theorem local_evaluator_policies_witness:
  "(0::rat) \<le> 1 / 2 \<and> (1 / 2 :: rat) < 1
   \<and> prediction (mockRes ''http://secure-bank-login.com'' (1 / 2)) = ''phishing''
   \<and> risk (mockRes ''http://secure-bank-login.com'' (1 / 2)) = ''CRITICAL''
   \<and> prediction (mockRes ''http://example.com'' (1 / 2)) = ''benign''
   \<and> risk (mockRes ''http://example.com'' (1 / 2)) = ''LOW''
   \<and> prediction (legacy_mockRes ''http://example.com'' (1 / 2)) = ''Benign''
   \<and> risk (legacy_mockRes ''http://example.com'' (1 / 2)) = ''LOW''
   \<and> prediction (legacy_mockRes plain_url (1 / 2)) = ''Phishing''"
proof -
  have h: "(0::rat) \<le> 1 / 2" "(1 / 2 :: rat) < 1" by simp_all
  have "isPhish ''http://secure-bank-login.com''" by (simp add: isPhish_def)
  moreover have "\<not> isPhish ''http://example.com''" by (simp add: isPhish_def)
  moreover have "\<not> legacy_isPhish ''http://example.com''" by (simp add: legacy_isPhish_def)
  moreover have "legacy_isPhish plain_url" by (simp add: legacy_isPhish_def plain_url_def)
  ultimately show ?thesis
    using local_evaluator_policies [OF h, of "''http://secure-bank-login.com''"]
      local_evaluator_policies [OF h, of "''http://example.com''"]
      local_evaluator_policies [OF h, of plain_url]
    by simp
qed

section \<open>Facts about the handlers\<close>

lemmas handler_defs =
  submit_def analyzeUrl_begin_def analyzeUrl_success_def analyzeUrl_catch_def
  analyzeUrl_fallback_def tick_def task_at_def button_disabled_def

lemmas session_defs =
  initial_system_def initial_state_def initial_stats_def handler_defs remove_task_def
  merge_stats_def merge_item_def tick_stats_def tick_item_def isPhishing_def push_capped_def
  merges_def

lemma shape_cases:
  "shape st \<longleftrightarrow> (\<exists>b p. st = [\<lparr>name = ''Benign'', val = b\<rparr>, \<lparr>name = ''Phishing'', val = p\<rparr>])"
proof
  assume "shape st"
  then obtain x y where st: "st = [x, y]" and n: "name x = ''Benign''" "name y = ''Phishing''"
    unfolding shape_def by (auto simp: map_eq_Cons_conv)
  have "x = \<lparr>name = ''Benign'', val = val x\<rparr>" "y = \<lparr>name = ''Phishing'', val = val y\<rparr>"
    using n by simp_all
  then show "\<exists>b p. st = [\<lparr>name = ''Benign'', val = b\<rparr>, \<lparr>name = ''Phishing'', val = p\<rparr>]"
    using st by blast
next
  assume "\<exists>b p. st = [\<lparr>name = ''Benign'', val = b\<rparr>, \<lparr>name = ''Phishing'', val = p\<rparr>]"
  then show "shape st" by (auto simp: shape_def)
qed

lemma tick_stats_pair:
  "tick_stats rnd [\<lparr>name = ''Benign'', val = b\<rparr>, \<lparr>name = ''Phishing'', val = p\<rparr>] =
     (if isPhishing rnd
      then [\<lparr>name = ''Benign'', val = b\<rparr>, \<lparr>name = ''Phishing'', val = p + 1\<rparr>]
      else [\<lparr>name = ''Benign'', val = b + 1\<rparr>, \<lparr>name = ''Phishing'', val = p\<rparr>])"
  by (simp add: tick_stats_def tick_item_def upt_rec)

lemma merge_stats_pair:
  "merge_stats pred [\<lparr>name = ''Benign'', val = b\<rparr>, \<lparr>name = ''Phishing'', val = p\<rparr>] =
     (if pred = ''phishing''
      then [\<lparr>name = ''Benign'', val = b\<rparr>, \<lparr>name = ''Phishing'', val = p + 1\<rparr>]
      else if pred = ''benign''
      then [\<lparr>name = ''Benign'', val = b + 1\<rparr>, \<lparr>name = ''Phishing'', val = p\<rparr>]
      else [\<lparr>name = ''Benign'', val = b\<rparr>, \<lparr>name = ''Phishing'', val = p\<rparr>])"
  by (simp add: merge_stats_def merge_item_def)

lemma shape_tick_stats: "shape st \<Longrightarrow> shape (tick_stats rnd st)"
  by (auto simp: shape_cases tick_stats_pair)

lemma shape_merge_stats: "shape st \<Longrightarrow> shape (merge_stats pred st)"
  by (auto simp: shape_cases merge_stats_pair)

lemma total_tick_stats: "shape st \<Longrightarrow> total (tick_stats rnd st) = total st + 1"
  by (auto simp: shape_cases tick_stats_pair total_def)

lemma total_merge_stats:
  "shape st \<Longrightarrow> pred = ''phishing'' \<or> pred = ''benign'' \<Longrightarrow>
   total (merge_stats pred st) = total st + 1"
  by (auto simp: shape_cases merge_stats_pair total_def)

lemma grows_merge_stats: "list_all2 grows st (merge_stats pred st)"
  by (simp add: merge_stats_def merge_item_def grows_def list_all2_map2 list_all2_same)

lemma grows_tick_stats: "list_all2 grows st (tick_stats rnd st)"
proof -
  have "list_all2 (\<lambda>a q. grows a (tick_item c q)) st (zip st ns)" if "length ns = length st" for c ns
    using that
    by (induction st ns rule: list_induct2') (simp_all add: tick_item_def grows_def)
  then show ?thesis by (simp add: tick_stats_def list_all2_map2)
qed

lemma grows_refl: "list_all2 grows st st"
  by (simp add: grows_def list_all2_same)

lemma nonneg_grows:
  "list_all2 grows st st' \<Longrightarrow> list_all (\<lambda>x. 0 \<le> val x) st \<Longrightarrow> list_all (\<lambda>x. 0 \<le> val x) st'"
  by (induction rule: list_all2_induct) (auto simp: grows_def)

text \<open>What one event does to the statistics.\<close>

lemma stats_step:
  "stats (ui (step e sys)) =
     (case e of
        Interval rnd1 rnd2 clk \<Rightarrow> tick_stats rnd1 (stats (ui sys))
      | Response i d clk \<Rightarrow>
          (if answers e sys then merge_stats (data_prediction d) (stats (ui sys))
           else stats (ui sys))
      | _ \<Rightarrow> stats (ui sys))"
  by (cases e) (simp_all add: handler_defs split: option.splits task.splits)

lemma grows_step: "list_all2 grows (stats (ui sys)) (stats (ui (step e sys)))"
  unfolding stats_step
  by (cases e) (simp_all add: grows_refl grows_merge_stats grows_tick_stats)

lemma shape_step: "shape (stats (ui sys)) \<Longrightarrow> shape (stats (ui (step e sys)))"
  unfolding stats_step
  by (cases e) (simp_all add: shape_tick_stats shape_merge_stats)

lemma stats_step_pair:
  assumes "stats (ui sys) = [\<lparr>name = ''Benign'', val = b\<rparr>, \<lparr>name = ''Phishing'', val = p\<rparr>]"
  shows "stats (ui (step e sys)) =
           [\<lparr>name = ''Benign'', val = b + (if outcome e sys = Some Benign then 1 else 0)\<rparr>,
            \<lparr>name = ''Phishing'', val = p + (if outcome e sys = Some Phishing then 1 else 0)\<rparr>]"
  unfolding stats_step assms
  by (cases e) (simp_all add: tick_stats_pair merge_stats_pair)

lemma shape_run: "shape (stats (ui sys)) \<Longrightarrow> shape (stats (ui (run evs sys)))"
  by (induction evs arbitrary: sys) (simp_all add: shape_step)

lemma shape_initial: "shape (stats (ui initial_system))"
  by (simp add: shape_def initial_system_def initial_state_def initial_stats_def)

lemma nonneg_run:
  "list_all (\<lambda>x. 0 \<le> val x) (stats (ui sys)) \<Longrightarrow>
   list_all (\<lambda>x. 0 \<le> val x) (stats (ui (run evs sys)))"
proof (induction evs arbitrary: sys)
  case Nil
  then show ?case by simp
next
  case (Cons e evs)
  have "list_all (\<lambda>x. 0 \<le> val x) (stats (ui (step e sys)))"
    using nonneg_grows [OF grows_step] Cons.prems by blast
  then show ?case using Cons.IH by simp
qed

lemma stats_run_pair:
  assumes "stats (ui sys) = [\<lparr>name = ''Benign'', val = b\<rparr>, \<lparr>name = ''Phishing'', val = p\<rparr>]"
  shows "stats (ui (run evs sys)) =
           [\<lparr>name = ''Benign'', val = b + int (merged Benign evs sys)\<rparr>,
            \<lparr>name = ''Phishing'', val = p + int (merged Phishing evs sys)\<rparr>]"
  using assms
proof (induction evs arbitrary: sys b p)
  case Nil
  then show ?case by simp
next
  case (Cons e evs)
  show ?case
    using Cons.IH [OF stats_step_pair [OF Cons.prems, of e]] by simp
qed

lemma outcomes_merged_by_label:
  "outcomes_merged evs sys = merged Benign evs sys + merged Phishing evs sys"
proof (induction evs arbitrary: sys)
  case Nil
  then show ?case by simp
next
  case (Cons e evs)
  have "(if merges e sys then 1 else 0) =
      (if outcome e sys = Some Benign then 1 else 0) +
      (if outcome e sys = Some Phishing then (1::nat) else 0)"
    by (cases "outcome e sys" rule: option.exhaust [case_names None Some])
       (auto simp: merges_def intro: label.exhaust)
  then show ?case using Cons.IH [of "step e sys"] by simp
qed

text \<open>The log pushes.\<close>

lemma push_capped_bound: "length (push_capped ev prev) \<le> 7"
  by (simp add: push_capped_def)

lemma push_capped_newest_first: "push_capped ev prev = ev # take 6 prev"
  by (simp add: push_capped_def take_Cons')

lemma logs_success: "logs (analyzeUrl_success u d clk s) = success_log u clk # logs s"
  by (simp add: analyzeUrl_success_def)

lemma logs_fallback: "logs (analyzeUrl_fallback u rnd clk s) = simulated_log u clk # logs s"
  by (simp add: analyzeUrl_fallback_def)

lemma logs_tick: "logs (tick rnd1 rnd2 clk s) = tick_log rnd2 clk # take 6 (logs s)"
  by (simp add: tick_def push_capped_newest_first)

text \<open>The guard of \<^verbatim>\<open>analyzeUrl\<close> and the disabled button.\<close>

lemma submit_empty_url: "url (ui sys) = [] \<Longrightarrow> submit sys = sys"
  by (simp add: submit_def analyzeUrl_begin_def)

lemma click_disabled: "loading (ui sys) \<or> url (ui sys) = [] \<Longrightarrow> step Click sys = sys"
  by (simp add: button_disabled_def)

lemma stats_analyzeUrl_failed: "stats (analyzeUrl Failed rnd clk s) = stats s"
  by (simp add: analyzeUrl_def handler_defs)

section \<open>Submissions and the statistics\<close>

text \<open>
  Claim C1 (each submission of a non-empty url merges exactly one outcome, the fallback
  outcome when the remote call fails), evaluated on the code where the remote call
  fails: the url \<^verbatim>\<open>http://verify-bank-login.com\<close> is typed, the button is clicked, the
  request fails and the 800 ms timer elapses. The fallback result is displayed and
  logged, the call has settled, and the statistics are the initial ones: the
  \<^verbatim>\<open>catch\<close> branch never calls \<^verbatim>\<open>setStats\<close>.
\<close>

theorem offline_scan_merges_nothing:
  "result (ui (run offline_scan initial_system)) =
      Some \<lparr>prediction = ''phishing'', confidence = ''85.0'', risk = ''CRITICAL''\<rparr>
   \<and> map level (logs (ui (run offline_scan initial_system))) = [''WARN'']
   \<and> inflight (run offline_scan initial_system) = []
   \<and> loading (ui (run offline_scan initial_system)) = False
   \<and> stats (ui (run offline_scan initial_system)) = initial_stats
   \<and> outcomes_merged offline_scan initial_system = 0"
proof -
  have conf: "toFixed1 85 = ''85.0''" by code_simp
  note mock_confidence_half [simp]
  have ph: "isPhish ''http://verify-bank-login.com''" by (simp add: isPhish_def)
  show ?thesis
    by (simp add: offline_scan_def session_defs simulated_log_def mockRes_def ph conf)
qed

text \<open>
  Claim C2 (a submit while a scan is in flight is a no-op, so two rapid submissions
  merge one outcome), evaluated on the code for the Enter key: the handler of the input
  field calls \<^verbatim>\<open>analyzeUrl\<close>, whose guard tests the url only. After two presses two
  requests are in flight, and when both are answered two outcomes have been merged.
  A click on the button in the same state does nothing: the button is disabled.
\<close>

theorem double_enter_merges_twice:
  "loading (ui (run [Change ''http://example.com'', KeyEnter] initial_system)) = True
   \<and> step Click (run [Change ''http://example.com'', KeyEnter] initial_system) =
       run [Change ''http://example.com'', KeyEnter] initial_system
   \<and> inflight (run double_enter initial_system) =
       [AwaitFetch ''http://example.com'', AwaitFetch ''http://example.com'']
   \<and> stats (ui (run double_enter_answered initial_system)) =
       [\<lparr>name = ''Benign'', val = 402\<rparr>, \<lparr>name = ''Phishing'', val = 300\<rparr>]
   \<and> outcomes_merged double_enter_answered initial_system = 2"
  by (simp add: double_enter_answered_def double_enter_def benign_response_def session_defs)

section \<open>The event log\<close>

text \<open>
  Claim C3 (after every push the log holds at most 7 entries), evaluated on the code
  for the pushes of \<^verbatim>\<open>analyzeUrl\<close>: after seven firings of the interval the log is
  full, and a scan, answered or not, leaves eight entries with its own entry first.
  Only the push of the interval ends in \<^verbatim>\<open>slice(0, 7)\<close>.
\<close>

theorem scan_push_exceeds_capacity:
  "length (logs (ui (run seven_ticks initial_system))) = 7
   \<and> length (logs (ui (run full_log_scan initial_system))) = 8
   \<and> map level (logs (ui (run full_log_scan initial_system))) =
       [''SUCCESS'', ''INFO'', ''INFO'', ''INFO'', ''INFO'', ''INFO'', ''INFO'', ''INFO'']
   \<and> length (logs (ui (run full_log_offline_scan initial_system))) = 8
   \<and> map level (logs (ui (run full_log_offline_scan initial_system))) =
       [''WARN'', ''INFO'', ''INFO'', ''INFO'', ''INFO'', ''INFO'', ''INFO'', ''INFO'']"
  by (simp add: full_log_scan_def full_log_offline_scan_def offline_scan_def seven_ticks_def
      phishing_response_def session_defs success_log_def simulated_log_def tick_log_def
      eval_nat_numeral)

section \<open>The aggregate statistics\<close>

text \<open>
  Claim C5 as stated asks the total of the counts to equal the number of outcomes merged
  since the session started. The counts start at 400 and 300, so the claim fails before
  any event.
\<close>

theorem initial_total_counterexample:
  "total (stats (ui (run [] initial_system))) \<noteq> int (outcomes_merged [] initial_system)"
  by (simp add: total_def initial_system_def initial_state_def initial_stats_def)

text \<open>
  Claim C5, amended by the initial counts. In every session, every count is
  non-negative; no event lowers a count or renames an entry, in any state; the Benign
  count is 400 plus the number of Benign outcomes merged since the session started and
  the Phishing count is 300 plus the number of Phishing outcomes merged; so the total of
  the counts is the 700 of the initial counts plus the number of outcomes merged.
\<close>

theorem stats_grow_from_seed:
  "list_all (\<lambda>x. 0 \<le> val x) (stats (ui (run evs initial_system)))
   \<and> list_all2 grows (stats (ui sys)) (stats (ui (step e sys)))
   \<and> stats (ui (run evs initial_system)) =
       [\<lparr>name = ''Benign'', val = 400 + int (merged Benign evs initial_system)\<rparr>,
        \<lparr>name = ''Phishing'', val = 300 + int (merged Phishing evs initial_system)\<rparr>]
   \<and> total (stats (ui (run evs initial_system))) =
       700 + int (outcomes_merged evs initial_system)"
proof -
  have "list_all (\<lambda>x. 0 \<le> val x) (stats (ui initial_system))"
    by (simp add: initial_system_def initial_state_def initial_stats_def)
  then have nonneg: "list_all (\<lambda>x. 0 \<le> val x) (stats (ui (run evs initial_system)))"
    by (rule nonneg_run)
  have "stats (ui initial_system) =
      [\<lparr>name = ''Benign'', val = 400\<rparr>, \<lparr>name = ''Phishing'', val = 300\<rparr>]"
    by (simp add: initial_system_def initial_state_def initial_stats_def)
  then have st: "stats (ui (run evs initial_system)) =
       [\<lparr>name = ''Benign'', val = 400 + int (merged Benign evs initial_system)\<rparr>,
        \<lparr>name = ''Phishing'', val = 300 + int (merged Phishing evs initial_system)\<rparr>]"
    by (rule stats_run_pair)
  have tot: "total (stats (ui (run evs initial_system))) =
      700 + int (outcomes_merged evs initial_system)"
    unfolding st by (simp add: total_def outcomes_merged_by_label)
  show ?thesis
    by (intro conjI nonneg grows_step st tot)
qed

theorem stats_grow_from_seed_witness:
  "stats (ui (run mixed_session initial_system)) =
       [\<lparr>name = ''Benign'', val = 400\<rparr>, \<lparr>name = ''Phishing'', val = 302\<rparr>]
   \<and> merged Benign mixed_session initial_system = 0
   \<and> merged Phishing mixed_session initial_system = 2
   \<and> outcomes_merged mixed_session initial_system = 2
   \<and> total (stats (ui (run mixed_session initial_system))) = 702
   \<and> stats (ui (run mislabelled_scan initial_system)) = initial_stats
   \<and> outcomes_merged mislabelled_scan initial_system = 0
   \<and> total (stats (ui (run mislabelled_scan initial_system))) = 700"
proof -
  have b: "merged Benign mixed_session initial_system = 0"
    by (simp add: mixed_session_def phishing_response_def session_defs)
  have p: "merged Phishing mixed_session initial_system = 2"
    by (simp add: mixed_session_def phishing_response_def session_defs)
  have m: "outcomes_merged mixed_session initial_system = 2"
    by (simp add: mixed_session_def phishing_response_def session_defs)
  have m': "outcomes_merged mislabelled_scan initial_system = 0"
    by (simp add: mislabelled_scan_def mislabelled_response_def session_defs)
  have s': "stats (ui (run mislabelled_scan initial_system)) = initial_stats"
    by (simp add: mislabelled_scan_def mislabelled_response_def session_defs)
  note w = stats_grow_from_seed [of mixed_session initial_system Click]
  note w' = stats_grow_from_seed [of mislabelled_scan initial_system Click]
  have st: "stats (ui (run mixed_session initial_system)) =
       [\<lparr>name = ''Benign'', val = 400\<rparr>, \<lparr>name = ''Phishing'', val = 302\<rparr>]"
    using w [THEN conjunct2, THEN conjunct2, THEN conjunct1] by (simp add: b p)
  have tot: "total (stats (ui (run mixed_session initial_system))) = 702"
    using w [THEN conjunct2, THEN conjunct2, THEN conjunct2] by (simp add: m)
  have tot': "total (stats (ui (run mislabelled_scan initial_system))) = 700"
    using w' [THEN conjunct2, THEN conjunct2, THEN conjunct2] by (simp add: m')
  show ?thesis
    by (intro conjI st b p m tot s' m' tot')
qed

section \<open>The connectivity status\<close>

lemma status_step:
  "backendStatus (ui (step e sys)) =
     (case e of
        Response i d clk \<Rightarrow> (if answers e sys then ''Online'' else backendStatus (ui sys))
      | Failure i \<Rightarrow> (if fails e sys then ''Offline (Simulated Mode)'' else backendStatus (ui sys))
      | _ \<Rightarrow> backendStatus (ui sys))"
  by (cases e) (simp_all add: handler_defs split: option.splits task.splits)

lemma offline_after_step:
  assumes "backendStatus (ui (step e sys)) = ''Offline (Simulated Mode)''"
  shows "backendStatus (ui sys) = ''Offline (Simulated Mode)'' \<or> fails e sys"
  using assms unfolding status_step by (cases e) (simp_all split: if_splits)

lemma offline_after_run:
  assumes "backendStatus (ui (run evs sys)) = ''Offline (Simulated Mode)''"
  shows "backendStatus (ui sys) = ''Offline (Simulated Mode)'' \<or> 0 < failed_calls evs sys"
  using assms
proof (induction evs arbitrary: sys)
  case Nil
  then show ?case by simp
next
  case (Cons e evs)
  from Cons.prems have "backendStatus (ui (run evs (step e sys))) = ''Offline (Simulated Mode)''"
    by simp
  then have "backendStatus (ui (step e sys)) = ''Offline (Simulated Mode)''
      \<or> 0 < failed_calls evs (step e sys)"
    by (rule Cons.IH)
  then show ?case
    using offline_after_step [of e sys] by auto
qed

text \<open>
  Claim C6. When the request of a call in flight is answered, the status becomes
  \<^verbatim>\<open>Online\<close>; when it fails, the status becomes \<^verbatim>\<open>Offline (Simulated Mode)\<close> and the call
  goes on to the fallback; a firing of the interval leaves the status as it is; and in
  every state a session can reach, an offline status means that some remote call of the
  session has failed.
\<close>

theorem connectivity_follows_remote_calls:
  "(task_at sys i = Some (AwaitFetch u) \<longrightarrow>
      backendStatus (ui (step (Response i d clk) sys)) = ''Online''
      \<and> backendStatus (ui (step (Failure i) sys)) = ''Offline (Simulated Mode)''
      \<and> task_at (step (Failure i) sys) i = Some (AwaitDelay u))
   \<and> backendStatus (ui (step (Interval rnd1 rnd2 clk) sys)) = backendStatus (ui sys)
   \<and> (backendStatus (ui (run evs initial_system)) = ''Offline (Simulated Mode)'' \<longrightarrow>
        0 < failed_calls evs initial_system)"
proof -
  have a: "backendStatus (ui (step (Response i d clk) sys)) = ''Online''
      \<and> backendStatus (ui (step (Failure i) sys)) = ''Offline (Simulated Mode)''
      \<and> task_at (step (Failure i) sys) i = Some (AwaitDelay u)"
    if "task_at sys i = Some (AwaitFetch u)"
    using that by (simp add: handler_defs split: if_splits)
  have b: "backendStatus (ui (step (Interval rnd1 rnd2 clk) sys)) = backendStatus (ui sys)"
    by (simp add: tick_def)
  have "backendStatus (ui initial_system) \<noteq> ''Offline (Simulated Mode)''"
    by (simp add: initial_system_def initial_state_def)
  then have c: "0 < failed_calls evs initial_system"
    if "backendStatus (ui (run evs initial_system)) = ''Offline (Simulated Mode)''"
    using offline_after_run [OF that] by simp
  show ?thesis using a b c by blast
qed

theorem connectivity_follows_remote_calls_witness:
  "task_at (run double_enter initial_system) 1 = Some (AwaitFetch ''http://example.com'')
   \<and> backendStatus (ui (step (Response 1 benign_response noon) (run double_enter initial_system)))
       = ''Online''
   \<and> backendStatus (ui (step (Failure 1) (run double_enter initial_system)))
       = ''Offline (Simulated Mode)''
   \<and> backendStatus (ui (run offline_scan initial_system)) = ''Offline (Simulated Mode)''
   \<and> 0 < failed_calls offline_scan initial_system"
proof -
  have t: "task_at (run double_enter initial_system) 1 = Some (AwaitFetch ''http://example.com'')"
    by (simp add: double_enter_def session_defs)
  have o: "backendStatus (ui (run offline_scan initial_system)) = ''Offline (Simulated Mode)''"
    by (simp add: offline_scan_def session_defs)
  show ?thesis
    using connectivity_follows_remote_calls
      [of "run double_enter initial_system" 1 "''http://example.com''" benign_response noon
          0 0 offline_scan] t o
    by simp
qed

section \<open>The background interval\<close>

text \<open>
  The draw of a firing is compared with 0.7. Of the \<open>N\<close> equally spaced draws
  \<open>0/N, 1/N, ..., (N-1)/N\<close>, those above 0.7 are the last \<open>N - 1 - \<lfloor>7N/10\<rfloor>\<close>: a share
  of Phishing within \<open>1/N\<close> of 0.3.
\<close>

lemma isPhishing_fraction:
  assumes "0 < N"
  shows "isPhishing (of_nat k / of_nat N) \<longleftrightarrow> 7 * N div 10 < k"
proof -
  have pos: "(0::rat) < of_nat N" using assms by simp
  have "isPhishing (of_nat k / of_nat N) \<longleftrightarrow> (7::rat) / 10 < of_nat k / of_nat N"
    by (simp add: isPhishing_def)
  also have "\<dots> \<longleftrightarrow> (7::rat) / 10 * of_nat N < of_nat k"
    using pos by (simp only: pos_less_divide_eq)
  also have "\<dots> \<longleftrightarrow> (of_nat (7 * N) :: rat) < of_nat (10 * k)"
    by (simp add: mult.commute)
  also have "\<dots> \<longleftrightarrow> 7 * N < 10 * k"
    by (simp only: of_nat_less_iff)
  also have "\<dots> \<longleftrightarrow> 7 * N div 10 < k"
    by linarith
  finally show ?thesis .
qed

lemma coin_weight:
  assumes "0 < N"
  shows "card {k. k < N \<and> isPhishing (of_nat k / of_nat N)} = N - 1 - 7 * N div 10"
proof -
  have "{k. k < N \<and> isPhishing (of_nat k / of_nat N)} = {Suc (7 * N div 10) ..< N}"
    unfolding isPhishing_fraction [OF assms] by auto
  then show ?thesis by simp
qed

lemma batch_number_bounds:
  assumes "is_double rnd" and "0 \<le> rnd" and "rnd < 1"
  shows "1000 \<le> batch_number rnd" and "batch_number rnd \<le> 9999"
proof -
  have "0 \<le> dmul rnd (of_nat 9000)" and "dmul rnd (of_nat 9000) < of_nat 9000"
    using dmul_draw_below [OF assms, of 13 9000] by simp_all
  then have "0 \<le> dmul rnd 9000" and "dmul rnd 9000 < 9000" by simp_all
  then have fl: "0 \<le> \<lfloor>dmul rnd 9000\<rfloor>" "\<lfloor>dmul rnd 9000\<rfloor> < 9000"
    by (simp_all add: le_floor_iff floor_less_iff)
  show "1000 \<le> batch_number rnd" and "batch_number rnd \<le> 9999"
    unfolding batch_number_def using fl by linarith+
qed

lemma legacy_batch_bound:
  assumes "is_double rnd" and "0 \<le> rnd" and "rnd < 1"
  shows "nat \<lfloor>dmul rnd 1000\<rfloor> \<le> 999"
proof -
  have "dmul rnd (of_nat 1000) < of_nat 1000"
    using dmul_draw_below [OF assms, of 9 1000] by simp_all
  then have "dmul rnd 1000 < 1000" by simp
  then have "\<lfloor>dmul rnd 1000\<rfloor> < 1000"
    by (simp add: floor_less_iff)
  then show ?thesis by linarith
qed

text \<open>
  Claim C8 as stated holds of every firing of a background interval. The interval of
  the earlier variant pushes a log entry and nothing else: at the draws 1/2 and 15/16
  the entry has the level \<^verbatim>\<open>WARN\<close> and names batch 500, and the statistics are as before.
\<close>

theorem legacy_tick_counterexample:
  "level (legacy_tick_log (1 / 2) (15 / 16) noon) = ''WARN''
   \<and> msg (legacy_tick_log (1 / 2) (15 / 16) noon) = ''Analyzed URL batch #500''
   \<and> legacy_stats (legacy_tick (1 / 2) (15 / 16) noon legacy_initial_state) = initial_stats"
proof -
  have d: "decimal 500 = ''500''"
    by (simp add: decimal_more_digits decimal_one_digit digit_char_def)
  have b: "nat \<lfloor>dmul (1 / 2) 1000\<rfloor> = 500"
    by (simp add: dmul_def round_double_numeral)
  show ?thesis
    by (simp add: legacy_tick_log_def legacy_tick_def legacy_initial_state_def literal_0_9 b d)
qed

text \<open>
  Claim C8, amended to the two intervals. In App.jsx, in every state a session can
  reach, a firing of the interval adds one to exactly one count, the Phishing count
  when the deciding draw exceeds 0.7 (about 3 draws in 10) and the Benign count
  otherwise; it pushes one log entry of level \<^verbatim>\<open>INFO\<close> whose message names a batch
  between 1000 and 9999; and it sends no request and leaves the url, the result, the
  loading flag and the connectivity status as they are. In the earlier variant a firing
  pushes one log entry, of level \<^verbatim>\<open>WARN\<close> when the deciding draw exceeds 0.9 and of level
  \<^verbatim>\<open>INFO\<close> otherwise, whose message names a batch between 0 and 999, and cuts the log to
  five entries; it changes no count and leaves the url, the result and the loading flag
  as they are. Here \<open>rnd1\<close> is the deciding draw and \<open>rnd2\<close> the draw that numbers the batch.
\<close>

theorem interval_ticks:
  assumes "is_double rnd2" and "0 \<le> rnd2" and "rnd2 < 1" and "0 < N"
  shows "(\<exists>b p. stats (ui (run evs initial_system)) =
              [\<lparr>name = ''Benign'', val = b\<rparr>, \<lparr>name = ''Phishing'', val = p\<rparr>]
            \<and> stats (ui (step (Interval rnd1 rnd2 clk) (run evs initial_system))) =
              (if isPhishing rnd1
               then [\<lparr>name = ''Benign'', val = b\<rparr>, \<lparr>name = ''Phishing'', val = p + 1\<rparr>]
               else [\<lparr>name = ''Benign'', val = b + 1\<rparr>, \<lparr>name = ''Phishing'', val = p\<rparr>]))
       \<and> (isPhishing rnd1 \<longleftrightarrow> 7 / 10 < rnd1)
       \<and> card {k. k < N \<and> isPhishing (of_nat k / of_nat N)} = N - 1 - 7 * N div 10
       \<and> logs (ui (step (Interval rnd1 rnd2 clk) sys)) = take 7 (tick_log rnd2 clk # logs (ui sys))
       \<and> level (tick_log rnd2 clk) = ''INFO''
       \<and> (\<exists>n. 1000 \<le> n \<and> n \<le> 9999
              \<and> msg (tick_log rnd2 clk) = ''Auto-scanning batch #'' @ decimal n @ ''...'')
       \<and> inflight (step (Interval rnd1 rnd2 clk) sys) = inflight sys
       \<and> url (ui (step (Interval rnd1 rnd2 clk) sys)) = url (ui sys)
       \<and> result (ui (step (Interval rnd1 rnd2 clk) sys)) = result (ui sys)
       \<and> loading (ui (step (Interval rnd1 rnd2 clk) sys)) = loading (ui sys)
       \<and> backendStatus (ui (step (Interval rnd1 rnd2 clk) sys)) = backendStatus (ui sys)
       \<and> legacy_logs (legacy_tick rnd2 rnd1 clk ls) =
           take 5 (legacy_tick_log rnd2 rnd1 clk # legacy_logs ls)
       \<and> level (legacy_tick_log rnd2 rnd1 clk) =
           (if round_double (9 / 10) < rnd1 then ''WARN'' else ''INFO'')
       \<and> (\<exists>n. n \<le> 999 \<and> msg (legacy_tick_log rnd2 rnd1 clk) = ''Analyzed URL batch #'' @ decimal n)
       \<and> legacy_stats (legacy_tick rnd2 rnd1 clk ls) = legacy_stats ls
       \<and> legacy_url (legacy_tick rnd2 rnd1 clk ls) = legacy_url ls
       \<and> legacy_result (legacy_tick rnd2 rnd1 clk ls) = legacy_result ls
       \<and> legacy_loading (legacy_tick rnd2 rnd1 clk ls) = legacy_loading ls"
proof -
  obtain b p where st: "stats (ui (run evs initial_system)) =
      [\<lparr>name = ''Benign'', val = b\<rparr>, \<lparr>name = ''Phishing'', val = p\<rparr>]"
    using shape_run [OF shape_initial, of evs] unfolding shape_cases by blast
  have "stats (ui (step (Interval rnd1 rnd2 clk) (run evs initial_system))) =
      tick_stats rnd1 (stats (ui (run evs initial_system)))"
    by (simp add: tick_def)
  then have one: "\<exists>b p. stats (ui (run evs initial_system)) =
              [\<lparr>name = ''Benign'', val = b\<rparr>, \<lparr>name = ''Phishing'', val = p\<rparr>]
            \<and> stats (ui (step (Interval rnd1 rnd2 clk) (run evs initial_system))) =
              (if isPhishing rnd1
               then [\<lparr>name = ''Benign'', val = b\<rparr>, \<lparr>name = ''Phishing'', val = p + 1\<rparr>]
               else [\<lparr>name = ''Benign'', val = b + 1\<rparr>, \<lparr>name = ''Phishing'', val = p\<rparr>])"
    using st tick_stats_pair [of rnd1 b p] by metis
  have thr: "isPhishing rnd1 \<longleftrightarrow> 7 / 10 < rnd1"
    by (simp add: isPhishing_def)
  have lg: "logs (ui (step (Interval rnd1 rnd2 clk) sys)) =
      take 7 (tick_log rnd2 clk # logs (ui sys))"
    by (simp add: tick_def push_capped_def)
  have lv: "level (tick_log rnd2 clk) = ''INFO''"
    by (simp add: tick_log_def)
  have ms: "\<exists>n. 1000 \<le> n \<and> n \<le> 9999
      \<and> msg (tick_log rnd2 clk) = ''Auto-scanning batch #'' @ decimal n @ ''...''"
    using batch_number_bounds [OF assms(1-3)] by (auto simp: tick_log_def)
  have f1: "inflight (step (Interval rnd1 rnd2 clk) sys) = inflight sys"
    and f2: "url (ui (step (Interval rnd1 rnd2 clk) sys)) = url (ui sys)"
    and f3: "result (ui (step (Interval rnd1 rnd2 clk) sys)) = result (ui sys)"
    and f4: "loading (ui (step (Interval rnd1 rnd2 clk) sys)) = loading (ui sys)"
    and f5: "backendStatus (ui (step (Interval rnd1 rnd2 clk) sys)) = backendStatus (ui sys)"
    by (simp_all add: tick_def)
  have l1: "legacy_logs (legacy_tick rnd2 rnd1 clk ls) =
      take 5 (legacy_tick_log rnd2 rnd1 clk # legacy_logs ls)"
    by (simp add: legacy_tick_def)
  have l2: "level (legacy_tick_log rnd2 rnd1 clk) =
      (if round_double (9 / 10) < rnd1 then ''WARN'' else ''INFO'')"
    by (simp add: legacy_tick_log_def)
  have l3: "\<exists>n. n \<le> 999 \<and> msg (legacy_tick_log rnd2 rnd1 clk) = ''Analyzed URL batch #'' @ decimal n"
    using legacy_batch_bound [OF assms(1-3)] by (auto simp: legacy_tick_log_def)
  have l4: "legacy_stats (legacy_tick rnd2 rnd1 clk ls) = legacy_stats ls"
    and l5: "legacy_url (legacy_tick rnd2 rnd1 clk ls) = legacy_url ls"
    and l6: "legacy_result (legacy_tick rnd2 rnd1 clk ls) = legacy_result ls"
    and l7: "legacy_loading (legacy_tick rnd2 rnd1 clk ls) = legacy_loading ls"
    by (simp_all add: legacy_tick_def)
  show ?thesis
    by (intro conjI one thr coin_weight [OF assms(4)] lg lv ms f1 f2 f3 f4 f5 l1 l2 l3 l4 l5 l6 l7)
qed

theorem interval_ticks_witness:
  "is_double (1 / 2) \<and> (0::rat) \<le> 1 / 2 \<and> (1 / 2 :: rat) < 1 \<and> (0::nat) < 1000
   \<and> card {k. k < (1000::nat) \<and> isPhishing (of_nat k / of_nat 1000)} = 299
   \<and> stats (ui (step (Interval (3 / 4) (1 / 2) noon) initial_system)) =
       [\<lparr>name = ''Benign'', val = 400\<rparr>, \<lparr>name = ''Phishing'', val = 301\<rparr>]
   \<and> stats (ui (step (Interval (1 / 2) (1 / 2) noon) initial_system)) =
       [\<lparr>name = ''Benign'', val = 401\<rparr>, \<lparr>name = ''Phishing'', val = 300\<rparr>]
   \<and> map msg (logs (ui (step (Interval (3 / 4) (1 / 2) noon) initial_system))) =
       [''Auto-scanning batch #5500...'']
   \<and> level (legacy_tick_log (1 / 2) (3 / 4) noon) = ''INFO''
   \<and> level (legacy_tick_log (1 / 2) (15 / 16) noon) = ''WARN''"
proof -
  have h: "is_double (1 / 2)" "(0::rat) \<le> 1 / 2" "(1 / 2 :: rat) < 1" "(0::nat) < 1000"
    by (simp_all add: is_double_half)
  have d: "decimal 5500 = ''5500''"
    by (simp add: decimal_more_digits decimal_one_digit digit_char_def)
  have m: "map msg (logs (ui (step (Interval (3 / 4) (1 / 2) noon) initial_system))) =
      [''Auto-scanning batch #5500...'']"
    by (simp add: session_defs tick_log_def batch_number_half d)
  have s1: "stats (ui (step (Interval (3 / 4) (1 / 2) noon) initial_system)) =
       [\<lparr>name = ''Benign'', val = 400\<rparr>, \<lparr>name = ''Phishing'', val = 301\<rparr>]"
    by (simp add: session_defs)
  have s2: "stats (ui (step (Interval (1 / 2) (1 / 2) noon) initial_system)) =
       [\<lparr>name = ''Benign'', val = 401\<rparr>, \<lparr>name = ''Phishing'', val = 300\<rparr>]"
    by (simp add: session_defs)
  have e: "(1000::nat) - 1 - 7 * 1000 div 10 = 299" by simp
  note w = interval_ticks [OF h, of "[]" "3 / 4" noon initial_system legacy_initial_state]
  have c: "card {k. k < (1000::nat) \<and> isPhishing (of_nat k / of_nat 1000)} = 299"
    by (rule trans [OF w [THEN conjunct2, THEN conjunct2, THEN conjunct1] e])
  have v1: "level (legacy_tick_log (1 / 2) (3 / 4) noon) = ''INFO''"
    by (simp add: legacy_tick_log_def literal_0_9)
  have v2: "level (legacy_tick_log (1 / 2) (15 / 16) noon) = ''WARN''"
    by (simp add: legacy_tick_log_def literal_0_9)
  show ?thesis
    by (intro conjI h c s1 s2 m v1 v2)
qed

section \<open>Settling of a submission\<close>

text \<open>
  Claim C10. A call of \<^verbatim>\<open>analyzeUrl\<close> with a non-empty url clears the displayed result
  and raises the loading flag before it awaits the request; whether the request is
  answered or fails, the call ends with the loading flag lowered (the failing call
  after its 800 ms timer), and with the url unchanged the button is enabled again.
\<close>

theorem analyzeUrl_settles:
  assumes "url (ui sys) \<noteq> []"
  shows "result (ui (submit sys)) = None
       \<and> loading (ui (submit sys)) = True
       \<and> inflight (submit sys) = inflight sys @ [AwaitFetch (url (ui sys))]
       \<and> loading (ui (step (Response (length (inflight sys)) d clk) (submit sys))) = False
       \<and> task_at (step (Failure (length (inflight sys))) (submit sys)) (length (inflight sys)) =
           Some (AwaitDelay (url (ui sys)))
       \<and> loading (ui (step (Timeout (length (inflight sys)) rnd clk)
                         (step (Failure (length (inflight sys))) (submit sys)))) = False
       \<and> loading (analyzeUrl r rnd clk (ui sys)) = False
       \<and> url (analyzeUrl r rnd clk (ui sys)) = url (ui sys)
       \<and> \<not> button_disabled (analyzeUrl r rnd clk (ui sys))"
proof -
  have sub: "submit sys =
      sys\<lparr>ui := (ui sys)\<lparr>loading := True, result := None\<rparr>,
          inflight := inflight sys @ [AwaitFetch (url (ui sys))]\<rparr>"
    using assms by (simp add: submit_def analyzeUrl_begin_def)
  have a: "result (ui (submit sys)) = None" "loading (ui (submit sys)) = True"
    "inflight (submit sys) = inflight sys @ [AwaitFetch (url (ui sys))]"
    by (simp_all add: sub)
  have t: "task_at (submit sys) (length (inflight sys)) = Some (AwaitFetch (url (ui sys)))"
    by (simp add: sub task_at_def)
  have b: "loading (ui (step (Response (length (inflight sys)) d clk) (submit sys))) = False"
    by (simp add: t analyzeUrl_success_def)
  have c: "task_at (step (Failure (length (inflight sys))) (submit sys)) (length (inflight sys)) =
      Some (AwaitDelay (url (ui sys)))"
    by (simp add: t) (simp add: sub task_at_def)
  have e: "loading (ui (step (Timeout (length (inflight sys)) rnd clk)
      (step (Failure (length (inflight sys))) (submit sys)))) = False"
    unfolding step.simps(7) c by (simp add: analyzeUrl_fallback_def)
  have f: "loading (analyzeUrl r rnd clk (ui sys)) = False"
    "url (analyzeUrl r rnd clk (ui sys)) = url (ui sys)"
    using assms by (cases r; simp add: analyzeUrl_def handler_defs)+
  then have g: "\<not> button_disabled (analyzeUrl r rnd clk (ui sys))"
    using assms by (simp add: button_disabled_def)
  show ?thesis using a b c e f g by blast
qed

theorem analyzeUrl_settles_witness:
  "url (ui (step (Change ''http://example.com'') initial_system)) \<noteq> []
   \<and> loading (ui (submit (step (Change ''http://example.com'') initial_system))) = True
   \<and> loading (analyzeUrl Failed (1 / 2) noon
                (ui (step (Change ''http://example.com'') initial_system))) = False
   \<and> loading (analyzeUrl (Succeeded benign_response) (1 / 2) noon
                (ui (step (Change ''http://example.com'') initial_system))) = False"
proof -
  have h: "url (ui (step (Change ''http://example.com'') initial_system)) \<noteq> []"
    by (simp add: initial_system_def)
  show ?thesis
    using h analyzeUrl_settles [OF h, of benign_response noon "1 / 2" Failed]
      analyzeUrl_settles [OF h, of benign_response noon "1 / 2" "Succeeded benign_response"]
    by simp
qed

section \<open>Snapshots of the statistics\<close>

text \<open>
  An updater built on \<^verbatim>\<open>map\<close> only adds objects to the store, so whatever was read
  through an older array is read again unchanged.
\<close>

lemma map_refs_extends:
  "map_refs f i h as = (h', bs) \<Longrightarrow> prefix h h'"
proof (induction as arbitrary: i h h' bs)
  case Nil
  then show ?case by simp
next
  case (Cons a as)
  show ?case
  proof (cases "f (h ! a) i")
    case None
    with Cons.prems obtain cs where "map_refs f (Suc i) h as = (h', cs)"
      by (auto split: prod.splits)
    then show ?thesis by (rule Cons.IH)
  next
    case (Some x)
    with Cons.prems obtain cs where "map_refs f (Suc i) (h @ [x]) as = (h', cs)"
      by (auto simp: alloc_def split: prod.splits)
    then have "prefix (h @ [x]) h'" by (rule Cons.IH)
    then show ?thesis by (rule append_prefixD)
  qed
qed

lemma view_prefix:
  assumes "prefix h h'" and "refs_ok h refs"
  shows "view h' refs = view h refs"
proof -
  obtain ext where "h' = h @ ext" using assms(1) by (auto simp: prefix_def)
  then show ?thesis using assms(2)
    by (simp add: view_def refs_ok_def list_all_iff nth_append)
qed

lemma refs_ok_prefix: "prefix h h' \<Longrightarrow> refs_ok h refs \<Longrightarrow> refs_ok h' refs"
  by (auto simp: refs_ok_def list_all_iff prefix_def)

lemma map_refs_view:
  "refs_ok h as \<Longrightarrow> map_refs f i h as = (h', bs) \<Longrightarrow>
   refs_ok h' bs \<and> view h' bs = map (apply_callback f) (zip (view h as) [i ..< i + length as])"
proof (induction as arbitrary: i h h' bs)
  case Nil
  then show ?case by (simp add: refs_ok_def view_def)
next
  case (Cons a as)
  from Cons.prems(1) have a: "a < length h" and as: "refs_ok h as"
    by (simp_all add: refs_ok_def)
  have upt: "[i ..< i + length (a # as)] = i # [Suc i ..< Suc i + length as]"
    by (simp add: upt_rec)
  show ?case
  proof (cases "f (h ! a) i")
    case None
    with Cons.prems obtain cs where m: "map_refs f (Suc i) h as = (h', cs)" and bs: "bs = a # cs"
      by (auto split: prod.splits)
    have ih: "refs_ok h' cs \<and> view h' cs = map (apply_callback f) (zip (view h as) [Suc i ..< Suc i + length as])"
      using Cons.IH [OF as m] .
    have p: "prefix h h'" using m by (rule map_refs_extends)
    have "h' ! a = h ! a" using p a by (auto simp: prefix_def nth_append)
    moreover have "a < length h'" using p a by (auto simp: prefix_def)
    ultimately show ?thesis
      using ih None unfolding upt bs
      by (simp add: refs_ok_def view_def apply_callback_def)
  next
    case (Some x)
    with Cons.prems obtain cs where m: "map_refs f (Suc i) (h @ [x]) as = (h', cs)"
      and bs: "bs = length h # cs"
      by (auto simp: alloc_def split: prod.splits)
    have as': "refs_ok (h @ [x]) as" using as by (rule refs_ok_prefix [rotated]) simp
    have ih: "refs_ok h' cs \<and> view h' cs = map (apply_callback f) (zip (view (h @ [x]) as) [Suc i ..< Suc i + length as])"
      using Cons.IH [OF as' m] .
    have v: "view (h @ [x]) as = view h as" using as by (intro view_prefix) simp_all
    have p: "prefix (h @ [x]) h'" using m by (rule map_refs_extends)
    then have "h' ! length h = x" "length h < length h'"
      by (auto simp: prefix_def nth_append)
    then show ?thesis
      using ih Some unfolding upt bs v
      by (simp add: refs_ok_def view_def apply_callback_def)
  qed
qed

lemma apply_interval_callback: "apply_callback (interval_callback c) = tick_item c"
  by (rule ext) (auto simp: apply_callback_def interval_callback_def tick_item_def split: prod.splits)

lemma apply_success_callback: "apply_callback (success_callback pred) p = merge_item pred (fst p)"
  by (cases p) (auto simp: apply_callback_def success_callback_def merge_item_def)


lemma interval_setStats_snapshot:
  assumes "refs_ok h prev" and "interval_setStats rnd h prev = (h', new)" and "refs_ok h old"
  shows "view h' new = tick_stats rnd (view h prev)" and "view h' old = view h old"
proof -
  have m: "map_refs (interval_callback (isPhishing rnd)) 0 h prev = (h', new)"
    using assms(2) by (simp add: interval_setStats_def)
  show "view h' new = tick_stats rnd (view h prev)"
    using map_refs_view [OF assms(1) m]
    by (simp add: apply_interval_callback tick_stats_def view_def)
  show "view h' old = view h old"
    using map_refs_extends [OF m] assms(3) by (rule view_prefix)
qed

lemma success_setStats_snapshot:
  assumes "refs_ok h prev" and "success_setStats pred h prev = (h', new)" and "refs_ok h old"
  shows "view h' new = merge_stats pred (view h prev)" and "view h' old = view h old"
proof -
  have m: "map_refs (success_callback pred) 0 h prev = (h', new)"
    using assms(2) by (simp add: success_setStats_def)
  have "map (apply_callback (success_callback pred)) (zip xs ns) = map (merge_item pred) xs"
    if "length ns = length xs" for xs :: "stat list" and ns :: "nat list"
    using that by (induction xs ns rule: list_induct2') (simp_all add: apply_success_callback)
  then show "view h' new = merge_stats pred (view h prev)"
    using map_refs_view [OF assms(1) m]
    by (simp add: merge_stats_def view_def)
  show "view h' old = view h old"
    using map_refs_extends [OF m] assms(3) by (rule view_prefix)
qed

text \<open>
  Claim C7 (a merge adds one to the count of the outcome's label only, and builds a new
  snapshot instead of writing into the entries, so that a snapshot taken before is not
  changed by it), evaluated on the updater of src/unnamed/part_001. The url
  \<^verbatim>\<open>http://verify-bank-login.com\<close> is scanned with the initial statistics in the store
  at the addresses 0 and 1. The array returned holds the same two addresses, and the
  array taken before the merge now reads 301 for Phishing.
\<close>

theorem legacy_merge_writes_in_place:
  "view initial_stats [0, 1] =
      [\<lparr>name = ''Benign'', val = 400\<rparr>, \<lparr>name = ''Phishing'', val = 300\<rparr>]
   \<and> legacy_setStats ''http://verify-bank-login.com'' initial_stats [0, 1] =
      Inr ([\<lparr>name = ''Benign'', val = 400\<rparr>, \<lparr>name = ''Phishing'', val = 301\<rparr>], [0, 1])
   \<and> view [\<lparr>name = ''Benign'', val = 400\<rparr>, \<lparr>name = ''Phishing'', val = 301\<rparr>] [0, 1] =
      [\<lparr>name = ''Benign'', val = 400\<rparr>, \<lparr>name = ''Phishing'', val = 301\<rparr>]
   \<and> success_setStats ''phishing'' initial_stats [0, 1] =
      ([\<lparr>name = ''Benign'', val = 400\<rparr>, \<lparr>name = ''Phishing'', val = 300\<rparr>,
        \<lparr>name = ''Phishing'', val = 301\<rparr>], [0, 2])"
  by (simp add: legacy_setStats_def legacy_isPhish_def increment_at_def view_def
      initial_stats_def success_setStats_def success_callback_def alloc_def)

section \<open>Pushes on a buffer that is no array\<close>

lemma interval_setLogs_array: "interval_setLogs newLog (JSArray xs) = Inr (push_capped newLog xs)"
  by (simp add: interval_setLogs_def isArray_def spread_def push_capped_def)

lemma scan_setLogs_array: "scan_setLogs ev (JSArray xs) = Inr (ev # xs)"
  by (simp add: scan_setLogs_def spread_def)

text \<open>
  The push of the background interval, whatever the prior buffer is: the updater
  returns an array and never raises; a buffer that is no array (absent, or no sequence)
  counts as empty, so the result holds the new entry alone, and an array is pushed onto
  and cut to seven entries.
\<close>

lemma interval_push_tolerates_any_buffer:
  "interval_setLogs newLog prev =
     Inr (case prev of JSArray xs \<Rightarrow> push_capped newLog xs | _ \<Rightarrow> [newLog])"
  by (cases prev) (simp_all add: interval_setLogs_def isArray_def spread_def push_capped_def)


end
